theory Spec2Isabelle
  imports Main
begin

section \<open>Numbers (binary64)\<close>

text \<open>
  The program's Numbers are IEEE 754 binary64 values, and every arithmetic operation
  rounds its exact result to the nearest such value, ties to the even significand. Two
  kinds of Number occur in the program and each has its own representation here: the
  integral Numbers and the special values (time stamps, minutes, what \<open>parseInt\<close>
  returns), and the fractions that \<open>Math.random\<close> returns.

  \<open>spacing n\<close> is the distance between neighbouring binary64 values at the magnitude
  of the natural number \<open>n\<close>: 1 below \<open>2^53\<close>, doubling with every further bit.
  \<open>round53 n\<close> is the multiple of \<open>spacing n\<close> nearest to \<open>n\<close>, the even multiple on
  a tie: the rounding of \<open>n\<close> to 53 significant bits.
\<close>

function spacing :: "nat \<Rightarrow> nat" where
  "spacing n = (if n < 2 ^ 53 then 1 else 2 * spacing (n div 2))"
  by pat_completeness auto
termination
  by (relation "measure (\<lambda>n. n)") auto

declare spacing.simps [simp del]

definition round53 :: "nat \<Rightarrow> nat" where
  "round53 n =
     (let u = spacing n; q = n div u; r = n mod u
      in if 2 * r < u \<or> (2 * r = u \<and> even q) then q * u else (q + 1) * u)"

text \<open>The integral Numbers, the two infinities and \<open>NaN\<close>. \<open>Finite 0\<close> stands for
  both zeros, which the program does not tell apart.\<close>

datatype number = NaN | NegInfinity | Finite int | PosInfinity

text \<open>The Number value for an integer: the integer rounded to 53 significant bits,
  an infinity from \<open>2^1024\<close> on.\<close>

definition F64 :: "int \<Rightarrow> number" where
  "F64 n =
     (let m = int (round53 (nat \<bar>n\<bar>))
      in if 2 ^ 1024 \<le> m then (if 0 \<le> n then PosInfinity else NegInfinity)
         else Finite (if 0 \<le> n then m else - m))"

definition isNaN :: "number \<Rightarrow> bool" where
  "isNaN v = (v = NaN)"

text \<open>The operators \<open><\<close>, \<open>\<le>\<close>, \<open>+\<close> and \<open>*\<close> of the language on these Numbers: a
  comparison with \<open>NaN\<close> is false, and a sum or product of integers is the rounded
  exact result.\<close>

instantiation number :: "{zero, ord, plus, times}"
begin

definition zero_number :: number where
  "zero_number = Finite 0"

fun less_number :: "number \<Rightarrow> number \<Rightarrow> bool" where
  "less_number (Finite a) (Finite b) = (a < b)"
| "less_number NaN y = False"
| "less_number x NaN = False"
| "less_number PosInfinity y = False"
| "less_number x NegInfinity = False"
| "less_number NegInfinity y = True"
| "less_number x PosInfinity = True"

fun less_eq_number :: "number \<Rightarrow> number \<Rightarrow> bool" where
  "less_eq_number (Finite a) (Finite b) = (a \<le> b)"
| "less_eq_number NaN y = False"
| "less_eq_number x NaN = False"
| "less_eq_number NegInfinity y = True"
| "less_eq_number x PosInfinity = True"
| "less_eq_number PosInfinity y = False"
| "less_eq_number x NegInfinity = False"

fun plus_number :: "number \<Rightarrow> number \<Rightarrow> number" where
  "plus_number (Finite a) (Finite b) = F64 (a + b)"
| "plus_number NaN y = NaN"
| "plus_number x NaN = NaN"
| "plus_number PosInfinity NegInfinity = NaN"
| "plus_number NegInfinity PosInfinity = NaN"
| "plus_number PosInfinity y = PosInfinity"
| "plus_number x PosInfinity = PosInfinity"
| "plus_number NegInfinity y = NegInfinity"
| "plus_number x NegInfinity = NegInfinity"

fun times_number :: "number \<Rightarrow> number \<Rightarrow> number" where
  "times_number (Finite a) (Finite b) = F64 (a * b)"
| "times_number NaN y = NaN"
| "times_number x NaN = NaN"
| "times_number x y =
     (if x = Finite 0 \<or> y = Finite 0 then NaN
      else if (Finite 0 < x) = (Finite 0 < y) then PosInfinity
      else NegInfinity)"

instance ..

end

text \<open>
  A binary64 value in \<open>[0, 1)\<close>, as \<open>Math.random\<close> returns it, is a fraction
  \<open>mant / 2^shift\<close> with \<open>mant < 2^53\<close>, \<open>shift \<le> 1074\<close> and \<open>mant < 2^shift\<close>, and every
  such fraction is one. Its product with a natural number \<open>c\<close> is \<open>mant * c / 2^shift\<close>
  exactly; the multiplication of the language rounds it to 53 significant bits, which
  is rounding the numerator (with \<open>shift \<le> 1074\<close> the rounded product is a normal binary64
  value whenever the rounding changes it). \<open>Math.floor\<close> of a fraction is the integer
  quotient.
\<close>

datatype fraction = Fraction (mant: nat) (shift: nat)

definition times_nat :: "fraction \<Rightarrow> nat \<Rightarrow> fraction" where
  "times_nat x c = Fraction (round53 (mant x * c)) (shift x)"

definition Math_floor :: "fraction \<Rightarrow> int" where
  "Math_floor x = int (mant x div 2 ^ shift x)"

section \<open>Short-code generator (App.tsx, generateShortCode)\<close>

text \<open>
  Strings are lists of code units; the model keeps the code units below 256, which
  covers every literal of the program.

  \<open>Math.random()\<close> has hidden state. The model makes it explicit: \<open>rnd\<close> is the
  sequence of values the calls return and a position \<open>p\<close> counts the calls made so
  far. The contract of \<open>Math.random\<close> is that every value is a binary64 value in
  \<open>[0, 1)\<close> (\<open>unit_draws\<close> below).
\<close>

definition chars :: string where
  "chars = ''abcdefghijklmnopqrstuvwxyzABCDEFGHIJKLMNOPQRSTUVWXYZ0123456789''"

text \<open>\<open>String.prototype.charAt\<close>: the one-character string at the index, the empty
  string when the index is out of range.\<close>

definition charAt :: "string \<Rightarrow> int \<Rightarrow> string" where
  "charAt s i = (if 0 \<le> i \<and> i < int (length s) then [s ! nat i] else [])"

text \<open>The inner loop \<^verbatim>\<open>for (let i = 0; i < 6; i++) code += chars.charAt(...)\<close>;
  it returns the code built and the position of the random source after it.\<close>

function for_loop :: "(nat \<Rightarrow> fraction) \<Rightarrow> nat \<Rightarrow> nat \<Rightarrow> string \<Rightarrow> string \<times> nat" where
  "for_loop rnd p i code =
     (if i < 6
      then for_loop rnd (Suc p) (Suc i)
             (code @ charAt chars (Math_floor (times_nat (rnd p) (length chars))))
      else (code, p))"
  by pat_completeness auto
termination
  by (relation "measure (\<lambda>(rnd, p, i, code). 6 - i)") auto

declare for_loop.simps [simp del]

text \<open>The \<^verbatim>\<open>do { ... } while (existing.has(code))\<close> loop. It has no bound on the
  number of rounds, so a run that never leaves the loop is the value \<open>None\<close>. A result
  \<open>Some (code, p')\<close> is the returned code and the position of the random source after
  the call.\<close>

partial_function (option) generateShortCode ::
  "string set \<Rightarrow> (nat \<Rightarrow> fraction) \<Rightarrow> nat \<Rightarrow> (string \<times> nat) option" where
  "generateShortCode existing rnd p =
     (case for_loop rnd p 0 [] of
        (code, p') \<Rightarrow>
          if code \<in> existing then generateShortCode existing rnd p'
          else Some (code, p'))"

text \<open>The characters of the class \<open>[a-zA-Z0-9]\<close>, by code unit.\<close>

definition alnum :: "char \<Rightarrow> bool" where
  "alnum ch =
     (let n = (of_char ch :: nat)
      in (97 \<le> n \<and> n \<le> 122) \<or> (65 \<le> n \<and> n \<le> 90) \<or> (48 \<le> n \<and> n \<le> 57))"

text \<open>The candidate code of round \<open>n\<close> (counted from 0) of a call that starts at
  position \<open>p\<close>: each round draws six values.\<close>

definition candidate :: "(nat \<Rightarrow> fraction) \<Rightarrow> nat \<Rightarrow> nat \<Rightarrow> string" where
  "candidate rnd p n = fst (for_loop rnd (p + 6 * n) 0 [])"

definition unit_draws :: "(nat \<Rightarrow> fraction) \<Rightarrow> bool" where
  "unit_draws rnd =
     (\<forall>i. mant (rnd i) < 2 ^ 53 \<and> shift (rnd i) \<le> 1074 \<and> mant (rnd i) < 2 ^ shift (rnd i))"

text \<open>A random source is exhaustive from position \<open>p\<close> on when every string of six
  characters of the class \<open>[a-zA-Z0-9]\<close> is the candidate of some round. This holds
  with probability 1 for draws that are independent and uniform.\<close>

definition spells_every_code :: "(nat \<Rightarrow> fraction) \<Rightarrow> nat \<Rightarrow> bool" where
  "spells_every_code rnd p =
     (\<forall>c. length c = 6 \<and> list_all alnum c \<longrightarrow> (\<exists>n. candidate rnd p n = c))"

section \<open>Platform functions used by the handlers\<close>

text \<open>\<open>String.prototype.trim\<close> removes white space and line terminators from both
  ends. Of the code units below 256 these are TAB, LF, VT, FF, CR, SP and NBSP.\<close>

definition isWhiteSpace :: "char \<Rightarrow> bool" where
  "isWhiteSpace ch = ((of_char ch :: nat) \<in> {9, 10, 11, 12, 13, 32, 160})"

definition trim :: "string \<Rightarrow> string" where
  "trim s = rev (dropWhile isWhiteSpace (rev (dropWhile isWhiteSpace s)))"

definition isDigit :: "char \<Rightarrow> bool" where
  "isDigit ch = (48 \<le> (of_char ch :: nat) \<and> (of_char ch :: nat) \<le> 57)"

definition digitValue :: "char \<Rightarrow> int" where
  "digitValue ch = int (of_char ch) - 48"

text \<open>\<open>parseInt(s, 10)\<close>: skip leading white space, read an optional sign, then the
  longest run of decimal digits; what follows the digits is ignored. The result is
  \<open>NaN\<close> when there is no digit, and otherwise the Number value for the signed integer
  the digits spell: rounded to 53 significant bits, an infinity for a long run. (The
  language lets an implementation read the digits after the 20th as 0; the model reads
  them all.)\<close>

definition parseInt10 :: "string \<Rightarrow> number" where
  "parseInt10 s =
     (let S = dropWhile isWhiteSpace s;
          sign = (if S \<noteq> [] \<and> hd S = CHR ''-'' then - 1 else 1 :: int);
          S' = (if S \<noteq> [] \<and> (hd S = CHR ''+'' \<or> hd S = CHR ''-'') then tl S else S);
          Z = takeWhile isDigit S'
      in if Z = [] then NaN
         else F64 (sign * foldl (\<lambda>acc d. acc * 10 + digitValue d) 0 Z))"

text \<open>A \<open>URL\<close> object, represented by its serialization (\<open>href\<close>), which determines
  it. The parser \<open>new URL(s)\<close> belongs to the platform, not to the program: the
  handlers take it as the parameter \<open>URL_new\<close>, with \<open>None\<close> for the \<open>TypeError\<close>
  it throws on a string that is not an absolute URL.\<close>

datatype url = URL (href: string)

definition toString :: "url \<Rightarrow> string" where
  "toString u = href u"

section \<open>Data model\<close>

text \<open>\<open>createdAt\<close> holds a value of \<open>Date.now()\<close>, which is an integer, and
  \<open>clickCount\<close> counts up from 0 by 1; \<open>expiresAt\<close> holds the result of the
  arithmetic of \<open>handleShorten\<close>, which may be rounded or infinite.\<close>

record ShortUrl =
  shortCode :: string
  originalUrl :: string
  createdAt :: int
  expiresAt :: number
  clickCount :: int

datatype jsvalue = JString string | JNumber number

record LogEntry =
  timestamp :: string
  message :: string
  entry_context :: "(string \<times> jsvalue) list option"

section \<open>Logging module (loggingMiddleware.ts)\<close>

text \<open>
  Arrays of log entries live in a store, addressed by reference, so that the array the
  module owns and the arrays \<open>getLogs\<close> hands out are told apart. \<open>nextFree\<close> is the
  next unused reference. The module's \<^verbatim>\<open>const logs\<close> is bound to \<open>logsRef\<close>.
\<close>

type_synonym addr = nat

record LogModule =
  arrays :: "addr \<Rightarrow> LogEntry list"
  nextFree :: addr

definition logsRef :: addr where
  "logsRef = 0"

definition logs :: "'a LogModule_scheme \<Rightarrow> LogEntry list" where
  "logs m = arrays m logsRef"

text \<open>\<open>log(message, context)\<close>; \<open>stamp\<close> is what \<^verbatim>\<open>new Date().toISOString()\<close> returns
  at the call.\<close>

definition log_entry ::
  "string \<Rightarrow> (string \<times> jsvalue) list option \<Rightarrow> string \<Rightarrow>
   'a LogModule_scheme \<Rightarrow> 'a LogModule_scheme" where
  "log_entry msg ctx stamp m =
     m\<lparr>arrays := (arrays m)
          (logsRef := arrays m logsRef @
             [\<lparr>timestamp = stamp, message = msg, entry_context = ctx\<rparr>])\<rparr>"

text \<open>\<open>getLogs()\<close> returns \<^verbatim>\<open>[...logs]\<close>: a newly allocated array with the entries
  of \<open>logs\<close>. The result is its reference and the store after the allocation.\<close>

definition getLogs :: "'a LogModule_scheme \<Rightarrow> addr \<times> 'a LogModule_scheme" where
  "getLogs m =
     (let a = nextFree m
      in (a, m\<lparr>arrays := (arrays m)(a := arrays m logsRef), nextFree := Suc a\<rparr>))"

section \<open>The component state and its handlers (App.tsx)\<close>

text \<open>The state cells of \<open>App\<close>, on top of the logging module's store, and the
  clipboard (\<open>None\<close>: not written by the page).\<close>

record world = LogModule +
  longUrl :: string
  validity :: string
  shortUrls :: "ShortUrl list"
  copied :: "string option"
  redirectCode :: string
  redirectResult :: "string option"
  showLogs :: bool
  clipboard :: "string option"

definition initial :: world where
  "initial =
     \<lparr>arrays = (\<lambda>a. []), nextFree = Suc logsRef,
      longUrl = [], validity = [], shortUrls = [], copied = None,
      redirectCode = [], redirectResult = None, showLogs = False, clipboard = None\<rparr>"

text \<open>\<open>handleShorten\<close>. \<open>now\<close> is the value of \<open>Date.now()\<close> (an integer below
  \<open>2^53\<close> in magnitude, so a Number as it is), \<open>rnd\<close> the values \<open>Math.random()\<close>
  returns during the call, \<open>stamp\<close> the time stamp of the log call. The result is
  \<open>None\<close> when the generator never returns.\<close>

definition handleShorten ::
  "(string \<Rightarrow> url option) \<Rightarrow> int \<Rightarrow> (nat \<Rightarrow> fraction) \<Rightarrow> string \<Rightarrow> world \<Rightarrow> world option" where
  "handleShorten URL_new now rnd stamp w =
     (if trim (longUrl w) = [] then
        Some (log_entry ''Attempted to shorten empty URL''
                (Some [(''longUrl'', JString (longUrl w))]) stamp w)
      else
        case URL_new (longUrl w) of
          None \<Rightarrow>
            Some (log_entry ''Invalid URL entered''
                    (Some [(''longUrl'', JString (longUrl w))]) stamp w)
        | Some url \<Rightarrow>
            let validityMinutes =
                  (if validity w \<noteq> [] then parseInt10 (validity w) else Finite 30)
            in if isNaN validityMinutes \<or> validityMinutes \<le> 0 then
                 Some (log_entry ''Invalid validity entered''
                         (Some [(''validity'', JString (validity w))]) stamp w)
               else
                 let expires = Finite now + validityMinutes * Finite 60 * Finite 1000;
                     existingCodes = set (map shortCode (shortUrls w))
                 in case generateShortCode existingCodes rnd 0 of
                      None \<Rightarrow> None
                    | Some (code, p) \<Rightarrow>
                        let newShort =
                              \<lparr>shortCode = code, originalUrl = toString url,
                               createdAt = now, expiresAt = expires, clickCount = 0\<rparr>
                        in Some
                             ((log_entry ''Shortened new URL''
                                 (Some [(''shortCode'', JString code),
                                        (''originalUrl'', JString (toString url)),
                                        (''validityMinutes'', JNumber validityMinutes)])
                                 stamp
                                 (w\<lparr>shortUrls := newShort # shortUrls w\<rparr>))
                              \<lparr>longUrl := [], validity := []\<rparr>))"

text \<open>\<open>handleCopy\<close>; \<open>origin\<close> is \<open>window.location.origin\<close>. Its first statement
  calls \<open>navigator.clipboard.writeText\<close>. Outside a secure context (a page served over
  plain http from another host) \<open>navigator.clipboard\<close> is \<open>undefined\<close> and the call
  throws a \<open>TypeError\<close>, which ends the handler before \<open>setCopied\<close> and \<open>log\<close>. The
  timer the handler starts fires later as \<open>copiedTimeout\<close>.\<close>

datatype error = TypeError

datatype navigator_clipboard = Missing | Present

definition handleCopy ::
  "navigator_clipboard \<Rightarrow> string \<Rightarrow> string \<Rightarrow> string \<Rightarrow> world \<Rightarrow> error + world" where
  "handleCopy api origin code stamp w =
     (case api of
        Missing \<Rightarrow> Inl TypeError
      | Present \<Rightarrow>
          Inr (log_entry ''Copied short URL'' (Some [(''shortCode'', JString code)]) stamp
                 (w\<lparr>clipboard := Some (origin @ ''/s/'' @ code), copied := Some code\<rparr>)))"

definition copiedTimeout :: "world \<Rightarrow> world" where
  "copiedTimeout w = w\<lparr>copied := None\<rparr>"

text \<open>\<open>found\<close> refers to the first object of the array that matches, and
  \<open>found.clickCount++\<close> changes that object where it is; \<^verbatim>\<open>[...shortUrls]\<close> is a new
  array of the same objects. On values: the first matching element is replaced.\<close>

fun update_found :: "('a \<Rightarrow> bool) \<Rightarrow> ('a \<Rightarrow> 'a) \<Rightarrow> 'a list \<Rightarrow> 'a list" where
  "update_found P f [] = []"
| "update_found P f (x # xs) = (if P x then f x # xs else x # update_found P f xs)"

definition handleRedirect :: "int \<Rightarrow> string \<Rightarrow> world \<Rightarrow> world" where
  "handleRedirect now stamp w =
     (case find (\<lambda>u. shortCode u = redirectCode w) (shortUrls w) of
        None \<Rightarrow>
          log_entry ''Redirection failed: code not found''
            (Some [(''shortCode'', JString (redirectCode w))]) stamp
            (w\<lparr>redirectResult := Some ''Short URL not found.''\<rparr>)
      | Some found \<Rightarrow>
          if Finite now > expiresAt found then
            log_entry ''Redirection failed: code expired''
              (Some [(''shortCode'', JString (redirectCode w))]) stamp
              (w\<lparr>redirectResult := Some ''This short URL has expired.''\<rparr>)
          else
            log_entry ''Short URL visited''
              (Some [(''shortCode'', JString (redirectCode w)),
                     (''originalUrl'', JString (originalUrl found))]) stamp
              (w\<lparr>shortUrls :=
                    update_found (\<lambda>u. shortCode u = redirectCode w)
                      (\<lambda>u. u\<lparr>clickCount := clickCount u + 1\<rparr>) (shortUrls w),
                  redirectResult := Some (''Redirected to: '' @ originalUrl found)\<rparr>))"

text \<open>The events of the page: typing into the three inputs, the two form submissions,
  a click on a Copy button, the timer of \<open>handleCopy\<close>, the log toggle. Each event
  carries what the handler reads from the environment. The page has a Copy button for
  the code of each row only; \<open>ClickCopy\<close> lets any code through, as the handler does.
  An exception that leaves a handler leaves the state cells as they were. A run stops
  (\<open>None\<close>) at a shorten whose generator call never returns.\<close>

datatype event =
    ChangeLongUrl string
  | ChangeValidity string
  | ChangeRedirectCode string
  | SubmitShorten int "nat \<Rightarrow> fraction" string
  | ClickCopy navigator_clipboard string string
  | CopiedTimeout
  | SubmitRedirect int string
  | ToggleLogs

fun step :: "(string \<Rightarrow> url option) \<Rightarrow> string \<Rightarrow> event \<Rightarrow> world \<Rightarrow> world option" where
  "step URL_new origin (ChangeLongUrl s) w = Some (w\<lparr>longUrl := s\<rparr>)"
| "step URL_new origin (ChangeValidity s) w = Some (w\<lparr>validity := s\<rparr>)"
| "step URL_new origin (ChangeRedirectCode s) w = Some (w\<lparr>redirectCode := s\<rparr>)"
| "step URL_new origin (SubmitShorten now rnd stamp) w = handleShorten URL_new now rnd stamp w"
| "step URL_new origin (ClickCopy api code stamp) w =
     (case handleCopy api origin code stamp w of
        Inl e \<Rightarrow> Some w
      | Inr w' \<Rightarrow> Some w')"
| "step URL_new origin CopiedTimeout w = Some (copiedTimeout w)"
| "step URL_new origin (SubmitRedirect now stamp) w = Some (handleRedirect now stamp w)"
| "step URL_new origin ToggleLogs w = Some (w\<lparr>showLogs := \<not> showLogs w\<rparr>)"

fun run :: "(string \<Rightarrow> url option) \<Rightarrow> string \<Rightarrow> event list \<Rightarrow> world \<Rightarrow> world option" where
  "run URL_new origin [] w = Some w"
| "run URL_new origin (e # es) w =
     (case step URL_new origin e w of
        None \<Rightarrow> None
      | Some w' \<Rightarrow> run URL_new origin es w')"

text \<open>The events at which the program appends to the log, with the time stamp of the
  log call: the two submissions, and a Copy click where \<open>navigator.clipboard\<close> is
  present.\<close>

fun logged_at :: "event \<Rightarrow> string option" where
  "logged_at (SubmitShorten now rnd stamp) = Some stamp"
| "logged_at (ClickCopy Present code stamp) = Some stamp"
| "logged_at (SubmitRedirect now stamp) = Some stamp"
| "logged_at e = None"

section \<open>Concrete inputs\<close>

text \<open>Two random sources within the contract of \<open>Math.random\<close>: every draw 0 (each
  round spells \<open>aaaaaa\<close>), and six draws 0 followed by one half (the first round
  spells \<open>aaaaaa\<close>, every later one \<open>FFFFFF\<close>).\<close>

definition always_zero :: "nat \<Rightarrow> fraction" where
  "always_zero i = Fraction 0 0"

definition zero_then_half :: "nat \<Rightarrow> fraction" where
  "zero_then_half i = (if i < 6 then Fraction 0 0 else Fraction 1 1)"

text \<open>A random source that spells every code: \<open>index_draw d\<close> is a draw in
  \<open>[d / 62, (d + 1) / 62)\<close>, which selects the character \<open>d\<close> of the alphabet, and
  round \<open>n\<close> of \<open>enumerating\<close> spells the six digits of \<open>n\<close> to the base 62.\<close>

definition index_draw :: "nat \<Rightarrow> fraction" where
  "index_draw d = Fraction ((64 * d + 30) div 31) 7"

definition enumerating :: "nat \<Rightarrow> fraction" where
  "enumerating i = index_draw ((i div 6) div 62 ^ (5 - i mod 6) mod 62)"

text \<open>A stand-in for the platform's URL parser, defined on the inputs of the examples
  only: it accepts \<open>https://example.com\<close>, serialized with the path \<open>/\<close> as the URL
  Standard prescribes, and rejects every other string.\<close>

definition example_URL_new :: "string \<Rightarrow> url option" where
  "example_URL_new s =
     (if s = ''https://example.com'' then Some (URL ''https://example.com/'') else None)"

text \<open>The initial page with the two inputs of the shorten form filled in.\<close>

definition typed :: "string \<Rightarrow> string \<Rightarrow> world" where
  "typed u v = initial\<lparr>longUrl := u, validity := v\<rparr>"

text \<open>The record that shortening \<open>https://example.com\<close> with validity \<open>1\<close> at time
  1000 creates when the generator returns \<open>aaaaaa\<close>, and the page that holds this one
  record with a code typed into the redirect form.\<close>

definition example_record :: ShortUrl where
  "example_record =
     \<lparr>shortCode = ''aaaaaa'', originalUrl = ''https://example.com/'', createdAt = 1000,
      expiresAt = Finite 61000, clickCount = 0\<rparr>"

definition visiting :: "string \<Rightarrow> world" where
  "visiting c = initial\<lparr>shortUrls := [example_record], redirectCode := c\<rparr>"

text \<open>A session from the initial page that shortens \<open>https://example.com\<close> twice (the
  second call draws the taken code first).\<close>

definition two_shortens :: "event list" where
  "two_shortens =
     [ChangeLongUrl ''https://example.com'', SubmitShorten 1000 always_zero ''t1'',
      ChangeLongUrl ''https://example.com'', SubmitShorten 2000 zero_then_half ''t2'']"

section \<open>Properties of the rounding\<close>

lemma spacing_small: "n < 2 ^ 53 \<Longrightarrow> spacing n = 1"
  by (subst spacing.simps) simp

lemma spacing_large: "\<not> n < 2 ^ 53 \<Longrightarrow> spacing n = 2 * spacing (n div 2)"
  by (subst spacing.simps) simp

lemma spacing_pos: "0 < spacing n"
  by (induction n rule: spacing.induct) (subst spacing.simps, simp)

lemma spacing_bound: "n < 2 ^ 53 * 2 ^ j \<Longrightarrow> spacing n \<le> 2 ^ j"
proof (induction j arbitrary: n)
  case 0
  then show ?case
    by (simp add: spacing_small)
next
  case (Suc j)
  show ?case
  proof (cases "n < 2 ^ 53")
    case True
    then show ?thesis
      by (simp add: spacing_small)
  next
    case False
    from Suc.prems have "n div 2 < 2 ^ 53 * 2 ^ j"
      by simp
    from Suc.IH [OF this] False show ?thesis
      by (simp add: spacing_large)
  qed
qed

lemma round53_exact: "n < 2 ^ 53 \<Longrightarrow> round53 n = n"
  by (simp add: round53_def spacing_small)

lemma round53_upper: "2 * round53 n \<le> 2 * n + spacing n"
proof -
  define u q r where "u = spacing n" and "q = n div u" and "r = n mod u"
  have n: "q * u + r = n"
    by (simp add: q_def r_def)
  have round: "round53 n = (if 2 * r < u \<or> (2 * r = u \<and> even q) then q * u else (q + 1) * u)"
    by (simp add: round53_def u_def q_def r_def Let_def)
  show ?thesis
  proof (cases "2 * r < u \<or> (2 * r = u \<and> even q)")
    case True
    with round have down: "round53 n = q * u"
      by simp
    have "q * u \<le> n"
      by (simp add: q_def)
    then show ?thesis
      by (simp add: down)
  next
    case False
    with round have up: "round53 n = (q + 1) * u"
      by simp
    from False have "\<not> 2 * r < u"
      by blast
    then have "2 * ((q + 1) * u) \<le> 2 * (q * u + r) + u"
      by (simp add: algebra_simps)
    then have "2 * round53 n \<le> 2 * n + u"
      by (simp only: up n)
    then show ?thesis
      by (simp only: u_def)
  qed
qed

lemma F64_exact: "\<bar>n\<bar> < 2 ^ 53 \<Longrightarrow> F64 n = Finite n"
proof -
  assume small: "\<bar>n\<bar> < 2 ^ 53"
  then have "nat \<bar>n\<bar> < 2 ^ 53"
    by (simp add: nat_less_iff)
  then have "round53 (nat \<bar>n\<bar>) = nat \<bar>n\<bar>"
    by (rule round53_exact)
  then have m: "int (round53 (nat \<bar>n\<bar>)) = \<bar>n\<bar>"
    by simp
  have "(2 :: int) ^ 53 \<le> 2 ^ 1024"
    by (rule power_increasing) simp_all
  with small have big: "\<not> (2 :: int) ^ 1024 \<le> \<bar>n\<bar>"
    by linarith
  show ?thesis
    unfolding F64_def Let_def m using big by (cases "0 \<le> n") simp_all
qed

lemma index_bound:
  assumes "m < 2 ^ 53" and "m < 2 ^ s"
  shows "round53 (m * 62) div 2 ^ s < 62"
proof -
  have "m * 62 < 2 ^ 53 * 2 ^ 6"
    using assms(1) by simp
  from spacing_bound [OF this] have "spacing (m * 62) \<le> 64"
    by simp
  with round53_upper [of "m * 62"] have "2 * round53 (m * 62) \<le> 124 * m + 64"
    by simp
  moreover from assms(2) have "124 * m + 124 \<le> 124 * 2 ^ s"
    by simp
  ultimately have "round53 (m * 62) < 62 * 2 ^ s"
    by simp
  then show ?thesis
    by (simp add: less_mult_imp_div_less)
qed


section \<open>Properties of the generator\<close>

lemma length_chars: "length chars = 62"
  by (simp add: chars_def)

lemma alnum_chars: "ch \<in> set chars \<Longrightarrow> alnum ch"
  by (auto simp: chars_def alnum_def)

lemma for_loop_done: "for_loop rnd p 6 code = (code, p)"
  by (simp add: for_loop.simps)

lemma for_loop_step:
  "i < 6 \<Longrightarrow> for_loop rnd p i code =
     for_loop rnd (Suc p) (Suc i) (code @ charAt chars (Math_floor (times_nat (rnd p) 62)))"
  by (subst for_loop.simps) (simp add: length_chars)

lemma for_loop_unfold:
  "for_loop rnd p 0 [] =
     (concat (map (\<lambda>j. charAt chars (Math_floor (times_nat (rnd (p + j)) 62)))
        [0, 1, 2, 3, 4, 5]), p + 6)"
proof -
  have "for_loop rnd p 0 [] =
      for_loop rnd (p + 6) 6
        (concat (map (\<lambda>j. charAt chars (Math_floor (times_nat (rnd (p + j)) 62)))
           [0, 1, 2, 3, 4, 5]))"
    by (simp add: for_loop_step numeral_eq_Suc)
  then show ?thesis
    by (simp add: for_loop_done)
qed

lemma generateShortCode_unfold:
  "generateShortCode existing rnd p =
     (if candidate rnd p 0 \<in> existing then generateShortCode existing rnd (p + 6)
      else Some (candidate rnd p 0, p + 6))"
  by (subst generateShortCode.simps) (simp add: candidate_def for_loop_unfold)

lemma candidate_shift: "candidate rnd (p + 6) n = candidate rnd p (Suc n)"
  by (simp add: candidate_def add.assoc)

lemma generateShortCode_first_fresh:
  "\<forall>m<n. candidate rnd p m \<in> existing \<Longrightarrow> candidate rnd p n \<notin> existing \<Longrightarrow>
   generateShortCode existing rnd p = Some (candidate rnd p n, p + 6 * Suc n)"
proof (induction n arbitrary: p)
  case 0
  then show ?case
    by (subst generateShortCode_unfold) simp
next
  case (Suc n)
  have first: "candidate rnd p 0 \<in> existing"
    using Suc.prems(1) by blast
  have earlier: "\<forall>m<n. candidate rnd (p + 6) m \<in> existing"
    using Suc.prems(1) by (simp add: candidate_shift)
  have fresh: "candidate rnd (p + 6) n \<notin> existing"
    using Suc.prems(2) by (simp add: candidate_shift)
  have "generateShortCode existing rnd (p + 6) =
      Some (candidate rnd (p + 6) n, p + 6 + 6 * Suc n)"
    by (rule Suc.IH [OF earlier fresh])
  with first show ?case
    by (subst generateShortCode_unfold) (simp add: candidate_shift)
qed

lemma generateShortCode_SomeD:
  assumes "generateShortCode existing rnd p = Some r"
  shows "\<exists>n. r = (candidate rnd p n, p + 6 * Suc n) \<and> candidate rnd p n \<notin> existing \<and>
       (\<forall>m<n. candidate rnd p m \<in> existing)"
  using assms
proof (induction rule: generateShortCode.raw_induct [rotated 1, consumes 1])
  case (1 gen existing rnd p r)
  show ?case
  proof (cases "candidate rnd p 0 \<in> existing")
    case False
    with 1(2) have "r = (candidate rnd p 0, p + 6 * Suc 0)"
      by (auto simp: candidate_def for_loop_unfold)
    with False show ?thesis
      by (intro exI [of _ 0]) simp
  next
    case True
    with 1(2) have "gen existing rnd (p + 6) = Some r"
      by (simp add: candidate_def for_loop_unfold)
    from 1(1) [OF this] obtain n where
      n: "r = (candidate rnd (p + 6) n, p + 6 + 6 * Suc n)"
         "candidate rnd (p + 6) n \<notin> existing"
         "\<forall>m<n. candidate rnd (p + 6) m \<in> existing"
      by blast
    have "\<forall>m<Suc n. candidate rnd p m \<in> existing"
    proof (intro allI impI)
      fix m assume "m < Suc n"
      then show "candidate rnd p m \<in> existing"
        using True n(3) by (cases m) (auto simp: candidate_shift)
    qed
    with n(1,2) show ?thesis
      by (intro exI [of _ "Suc n"]) (simp add: candidate_shift)
  qed
qed

lemma generateShortCode_None:
  "\<forall>n. candidate rnd p n \<in> existing \<Longrightarrow> generateShortCode existing rnd p = None"
proof (rule ccontr)
  assume all: "\<forall>n. candidate rnd p n \<in> existing"
  assume "generateShortCode existing rnd p \<noteq> None"
  then obtain r where "generateShortCode existing rnd p = Some r"
    by blast
  from generateShortCode_SomeD [OF this] all show False
    by blast
qed

text \<open>The generator returns exactly when some round is fresh, and then the code of the
  first fresh round.\<close>

lemma generateShortCode_returns:
  "(if \<exists>n. candidate rnd p n \<notin> existing
    then \<exists>n. candidate rnd p n \<notin> existing \<and> (\<forall>m<n. candidate rnd p m \<in> existing) \<and>
           generateShortCode existing rnd p = Some (candidate rnd p n, p + 6 * Suc n)
    else generateShortCode existing rnd p = None)"
proof (cases "\<exists>n. candidate rnd p n \<notin> existing")
  case True
  define n where "n = (LEAST n. candidate rnd p n \<notin> existing)"
  have fresh: "candidate rnd p n \<notin> existing"
    unfolding n_def using True by (rule LeastI_ex)
  have earlier: "\<forall>m<n. candidate rnd p m \<in> existing"
    unfolding n_def using not_less_Least by blast
  from generateShortCode_first_fresh [OF earlier fresh] fresh earlier True
  show ?thesis
    by auto
next
  case False
  then have "\<forall>n. candidate rnd p n \<in> existing"
    by blast
  from generateShortCode_None [OF this] False show ?thesis
    by simp
qed

lemma charAt_draw:
  assumes "mant x < 2 ^ 53" and "mant x < 2 ^ shift x"
  shows "\<exists>ch. charAt chars (Math_floor (times_nat x 62)) = [ch] \<and> ch \<in> set chars"
proof -
  from index_bound [OF assms] have "round53 (mant x * 62) div 2 ^ shift x < length chars"
    by (simp add: length_chars)
  then have "chars ! (round53 (mant x * 62) div 2 ^ shift x) \<in> set chars"
    by (rule nth_mem)
  with index_bound [OF assms] show ?thesis
    by (simp add: charAt_def length_chars Math_floor_def times_nat_def)
qed

lemma candidate_shape:
  assumes "unit_draws rnd"
  shows "length (candidate rnd p n) = 6 \<and> (\<forall>ch \<in> set (candidate rnd p n). alnum ch)"
proof -
  have one: "\<exists>ch. charAt chars (Math_floor (times_nat (rnd i) 62)) = [ch] \<and> alnum ch" for i
    using charAt_draw [of "rnd i"] assms alnum_chars
    by (auto simp: unit_draws_def)
  obtain c0 c1 c2 c3 c4 c5 where
    "charAt chars (Math_floor (times_nat (rnd (p + 6 * n)) 62)) = [c0]" "alnum c0"
    "charAt chars (Math_floor (times_nat (rnd (p + 6 * n + 1)) 62)) = [c1]" "alnum c1"
    "charAt chars (Math_floor (times_nat (rnd (p + 6 * n + 2)) 62)) = [c2]" "alnum c2"
    "charAt chars (Math_floor (times_nat (rnd (p + 6 * n + 3)) 62)) = [c3]" "alnum c3"
    "charAt chars (Math_floor (times_nat (rnd (p + 6 * n + 4)) 62)) = [c4]" "alnum c4"
    "charAt chars (Math_floor (times_nat (rnd (p + 6 * n + 5)) 62)) = [c5]" "alnum c5"
    using one by metis
  then show ?thesis
    by (simp add: candidate_def for_loop_unfold)
qed

lemma candidate_cong:
  assumes "\<forall>j<6. rnd' (p + 6 * m + j) = rnd (p + 6 * m + j)"
  shows "candidate rnd' p m = candidate rnd p m"
proof -
  have "rnd' (p + 6 * m + j) = rnd (p + 6 * m + j)" if "j < 6" for j
    using assms that by blast
  from this [of 0] this [of 1] this [of 2] this [of 3] this [of 4] this [of 5]
  show ?thesis
    by (simp add: candidate_def for_loop_unfold)
qed

text \<open>The generator on the concrete random sources.\<close>

lemma draw_zero: "charAt chars (Math_floor (times_nat (Fraction 0 0) 62)) = ''a''"
  by (simp add: Math_floor_def times_nat_def round53_exact charAt_def chars_def)

lemma draw_half:
  "charAt chars (Math_floor (times_nat (Fraction 1 1) 62)) = ''F''"
  "charAt chars (Math_floor (times_nat (Fraction (Suc 0) (Suc 0)) 62)) = ''F''"
  by (simp_all add: Math_floor_def times_nat_def round53_exact charAt_def chars_def)

text \<open>A product that the multiplication rounds up to an integer: the draw
  \<open>4648877034705028 / 2^53\<close> times 62 is \<open>32 - 2^-50\<close>, and the nearest binary64 value
  is 32, so the draw selects the character 32 and not 31.\<close>

lemma draw_rounded_up:
  "Math_floor (times_nat (Fraction 4648877034705028 53) 62) = 32"
  "charAt chars (Math_floor (times_nat (Fraction 4648877034705028 53) 62)) = ''G''"
  by (simp_all add: Math_floor_def times_nat_def round53_def spacing_large spacing_small
      charAt_def chars_def)

lemma unit_draws_zero: "unit_draws always_zero"
  by (simp add: unit_draws_def always_zero_def)

lemma unit_draws_zero_then_half: "unit_draws zero_then_half"
  by (simp add: unit_draws_def zero_then_half_def)

lemma candidate_zero: "candidate always_zero p n = ''aaaaaa''"
  by (simp add: candidate_def for_loop_unfold always_zero_def draw_zero)

lemma candidate_zero_then_half_0: "candidate zero_then_half 0 0 = ''aaaaaa''"
  by (simp add: candidate_def for_loop_unfold zero_then_half_def draw_zero)

lemma candidate_zero_then_half_1: "candidate zero_then_half 0 (Suc 0) = ''FFFFFF''"
  by (simp add: candidate_def for_loop_unfold zero_then_half_def draw_half)

lemma candidate_zero_then_half_6: "candidate zero_then_half 6 0 = ''FFFFFF''"
  by (simp add: candidate_def for_loop_unfold zero_then_half_def draw_half)

lemma generate_zero_then_half:
  "generateShortCode {''aaaaaa''} zero_then_half 0 = Some (''FFFFFF'', 12)"
proof -
  have "generateShortCode {''aaaaaa''} zero_then_half 0 =
      Some (candidate zero_then_half 0 (Suc 0), 0 + 6 * Suc (Suc 0))"
    by (rule generateShortCode_first_fresh)
       (simp_all add: candidate_zero_then_half_0 candidate_zero_then_half_1)
  then show ?thesis
    by (simp add: candidate_zero_then_half_1)
qed

lemma generate_zero_empty: "generateShortCode {} always_zero 0 = Some (''aaaaaa'', 6)"
  by (subst generateShortCode_unfold) (simp add: candidate_zero)

lemma generate_zero_then_half_empty_0:
  "generateShortCode {} zero_then_half 0 = Some (''aaaaaa'', 6)"
  by (subst generateShortCode_unfold) (simp add: candidate_zero_then_half_0)

lemma generate_zero_then_half_empty_6:
  "generateShortCode {} zero_then_half 6 = Some (''FFFFFF'', 12)"
  by (subst generateShortCode_unfold) (simp add: candidate_zero_then_half_6)

text \<open>The random source \<open>enumerating\<close> is within the contract and spells every code.\<close>

lemma of_char_chars: "map of_char chars = ([97..<123] @ [65..<91] @ [48..<58] :: nat list)"
  by (simp add: chars_def)

lemma alnum_in_chars: "alnum ch \<Longrightarrow> ch \<in> set chars"
proof -
  assume "alnum ch"
  then have "(of_char ch :: nat) \<in> {97..<123} \<union> {65..<91} \<union> {48..<58}"
    by (auto simp: alnum_def Let_def)
  also have "{97..<123} \<union> {65..<91} \<union> {48..<58} = set (map of_char chars :: nat list)"
    by (simp only: of_char_chars set_append set_upt Un_assoc)
  finally obtain c where "c \<in> set chars" "(of_char c :: nat) = of_char ch"
    by auto
  then show ?thesis
    by simp
qed

lemma index_arith: "d < 62 \<Longrightarrow> ((64 * d + 30) div 31 * 62) div 128 = (d::nat)"
proof -
  assume d: "d < 62"
  define m where "m = (64 * d + 30) div 31"
  have "31 * m \<le> 64 * d + 30" "64 * d + 30 < 31 * m + 31"
    unfolding m_def by arith+
  then have "128 * d \<le> m * 62" "m * 62 < 128 * d + 128"
    by arith+
  then have "m * 62 div 128 = d"
    by arith
  then show ?thesis
    by (simp add: m_def)
qed

lemma index_draw_small: "d < 62 \<Longrightarrow> (64 * d + 30) div 31 < (128 :: nat)"
  by arith

lemma index_draw_selects:
  assumes "d < 62"
  shows "charAt chars (Math_floor (times_nat (index_draw d) 62)) = [chars ! d]"
proof -
  from index_draw_small [OF assms] have "(64 * d + 30) div 31 * 62 < 2 ^ 53"
    by simp
  then have "round53 ((64 * d + 30) div 31 * 62) = (64 * d + 30) div 31 * 62"
    by (rule round53_exact)
  then have "Math_floor (times_nat (index_draw d) 62) = int d"
    by (simp add: Math_floor_def times_nat_def index_draw_def index_arith [OF assms])
  with assms show ?thesis
    by (simp add: charAt_def length_chars)
qed

lemma unit_draws_enumerating: "unit_draws enumerating"
proof -
  have m: "mant (enumerating i) < 128" for i
  proof -
    have "(i div 6) div 62 ^ (5 - i mod 6) mod 62 < (62 :: nat)"
      by simp
    from index_draw_small [OF this] show ?thesis
      by (simp add: enumerating_def index_draw_def)
  qed
  have s: "shift (enumerating i) = 7" for i
    by (simp add: enumerating_def index_draw_def)
  have "mant (enumerating i) < 2 ^ 53 \<and> shift (enumerating i) \<le> 1074 \<and>
      mant (enumerating i) < 2 ^ shift (enumerating i)" for i
    using m [of i] by (simp add: s)
  then show ?thesis
    by (simp add: unit_draws_def)
qed

lemma enumerating_round:
  "j < 6 \<Longrightarrow> enumerating (6 * n + j) = index_draw (n div 62 ^ (5 - j) mod 62)"
  by (simp add: enumerating_def)

lemma candidate_enumerating:
  "candidate enumerating 0 n =
     [chars ! (n div 62 ^ 5 mod 62), chars ! (n div 62 ^ 4 mod 62),
      chars ! (n div 62 ^ 3 mod 62), chars ! (n div 62 ^ 2 mod 62),
      chars ! (n div 62 mod 62), chars ! (n mod 62)]"
proof -
  have sel: "charAt chars (Math_floor (times_nat (enumerating (6 * n + j)) 62)) =
      [chars ! (n div 62 ^ (5 - j) mod 62)]" if "j < 6" for j
    using that by (simp add: enumerating_round index_draw_selects)
  from sel [of 0] sel [of 1] sel [of 2] sel [of 3] sel [of 4] sel [of 5]
  show ?thesis
    by (simp add: candidate_def for_loop_unfold)
qed

lemma horner_digits:
  fixes d0 d1 d2 d3 d4 d5 :: nat
  assumes "d0 < 62" "d1 < 62" "d2 < 62" "d3 < 62" "d4 < 62" "d5 < 62"
  defines "n \<equiv> ((((d0 * 62 + d1) * 62 + d2) * 62 + d3) * 62 + d4) * 62 + d5"
  shows "n div 62 ^ 5 mod 62 = d0" "n div 62 ^ 4 mod 62 = d1" "n div 62 ^ 3 mod 62 = d2"
    "n div 62 ^ 2 mod 62 = d3" "n div 62 mod 62 = d4" "n mod 62 = d5"
proof -
  have p: "(62 :: nat) ^ 5 = 62 * (62 * (62 * (62 * 62)))" "(62 :: nat) ^ 4 = 62 * (62 * (62 * 62))"
    "(62 :: nat) ^ 3 = 62 * (62 * 62)" "(62 :: nat) ^ 2 = 62 * 62"
    by simp_all
  have h: "(a * 62 + d) div 62 = a" "(a * 62 + d) mod 62 = d" if "d < 62" for a d :: nat
    using that by simp_all
  show "n mod 62 = d5"
    unfolding n_def by (simp only: h assms)
  show "n div 62 mod 62 = d4"
    unfolding n_def by (simp only: h assms)
  show "n div 62 ^ 2 mod 62 = d3"
    unfolding n_def p div_mult2_eq by (simp only: h assms)
  show "n div 62 ^ 3 mod 62 = d2"
    unfolding n_def p div_mult2_eq by (simp only: h assms)
  show "n div 62 ^ 4 mod 62 = d1"
    unfolding n_def p div_mult2_eq by (simp only: h assms)
  show "n div 62 ^ 5 mod 62 = d0"
    unfolding n_def p div_mult2_eq by (simp only: h assms div_less mod_less)
qed

lemma spells_every_code_enumerating: "spells_every_code enumerating 0"
  unfolding spells_every_code_def
proof (intro allI impI)
  fix c :: string
  assume c: "length c = 6 \<and> list_all alnum c"
  then obtain c0 c1 c2 c3 c4 c5 where shape: "c = [c0, c1, c2, c3, c4, c5]"
    by (auto simp: length_Suc_conv numeral_eq_Suc)
  have pick: "\<exists>d<62. chars ! d = ch" if "alnum ch" for ch
    using alnum_in_chars [OF that] by (simp add: in_set_conv_nth length_chars)
  from c shape pick obtain d0 d1 d2 d3 d4 d5 where
    d: "d0 < 62" "d1 < 62" "d2 < 62" "d3 < 62" "d4 < 62" "d5 < 62"
    and cs: "chars ! d0 = c0" "chars ! d1 = c1" "chars ! d2 = c2" "chars ! d3 = c3"
      "chars ! d4 = c4" "chars ! d5 = c5"
    by (simp add: shape) metis
  define n where "n = ((((d0 * 62 + d1) * 62 + d2) * 62 + d3) * 62 + d4) * 62 + d5"
  have "candidate enumerating 0 n = c"
    unfolding candidate_enumerating n_def horner_digits [OF d] shape cs ..
  then show "\<exists>n. candidate enumerating 0 n = c" ..
qed

section \<open>Properties of the handlers\<close>

lemma number_le_not_less: "(a :: number) \<le> b \<Longrightarrow> \<not> b < a"
  by (cases a; cases b) simp_all

lemma Finite_pos: "(0 < Finite n) = (0 < n)" "(Finite n \<le> 0) = (n \<le> 0)"
  by (simp_all add: zero_number_def)

text \<open>Where the products and the sum stay below \<open>2^53\<close> the arithmetic of
  \<open>handleShorten\<close> is exact.\<close>

lemma expires_exact:
  assumes "0 < v" and "v * 60000 < 2 ^ 53" and "\<bar>now + v * 60000\<bar> < 2 ^ 53"
  shows "Finite now + Finite v * Finite 60 * Finite 1000 = Finite (now + v * 60000)"
proof -
  from assms(1,2) have a: "\<bar>v * 60\<bar> < 2 ^ 53" and b: "\<bar>v * 60 * 1000\<bar> < 2 ^ 53"
    by simp_all
  have "Finite v * Finite 60 = F64 (v * 60)"
    by (simp only: times_number.simps)
  also have "\<dots> = Finite (v * 60)"
    by (rule F64_exact [OF a])
  finally have "Finite v * Finite 60 * Finite 1000 = F64 (v * 60 * 1000)"
    by (simp only: times_number.simps)
  also have "\<dots> = Finite (v * 60 * 1000)"
    by (rule F64_exact [OF b])
  also have "v * 60 * 1000 = v * 60000"
    by simp
  finally have "Finite now + Finite v * Finite 60 * Finite 1000 = F64 (now + v * 60000)"
    by (simp only: plus_number.simps)
  also have "\<dots> = Finite (now + v * 60000)"
    by (rule F64_exact [OF assms(3)])
  finally show ?thesis .
qed

lemma logs_log_entry:
  "logs (log_entry msg ctx stamp m) =
     logs m @ [\<lparr>timestamp = stamp, message = msg, entry_context = ctx\<rparr>]"
  by (simp add: logs_def log_entry_def)

lemma world_log_entry:
  fixes w :: world
  shows "shortUrls (log_entry msg ctx stamp w) = shortUrls w"
    and "longUrl (log_entry msg ctx stamp w) = longUrl w"
    and "validity (log_entry msg ctx stamp w) = validity w"
    and "redirectResult (log_entry msg ctx stamp w) = redirectResult w"
    and "redirectCode (log_entry msg ctx stamp w) = redirectCode w"
  by (simp_all add: log_entry_def)

lemma handleShorten_empty:
  "trim (longUrl w) = [] \<Longrightarrow>
   handleShorten URL_new now rnd stamp w =
     Some (log_entry ''Attempted to shorten empty URL''
             (Some [(''longUrl'', JString (longUrl w))]) stamp w)"
  by (simp add: handleShorten_def)

lemma handleShorten_invalid_url:
  "trim (longUrl w) \<noteq> [] \<Longrightarrow> URL_new (longUrl w) = None \<Longrightarrow>
   handleShorten URL_new now rnd stamp w =
     Some (log_entry ''Invalid URL entered''
             (Some [(''longUrl'', JString (longUrl w))]) stamp w)"
  by (simp add: handleShorten_def)

lemma handleShorten_invalid_validity:
  "trim (longUrl w) \<noteq> [] \<Longrightarrow> URL_new (longUrl w) = Some url \<Longrightarrow> validity w \<noteq> [] \<Longrightarrow>
   parseInt10 (validity w) = NaN \<or> parseInt10 (validity w) \<le> 0 \<Longrightarrow>
   handleShorten URL_new now rnd stamp w =
     Some (log_entry ''Invalid validity entered''
             (Some [(''validity'', JString (validity w))]) stamp w)"
  by (auto simp: handleShorten_def isNaN_def)

lemma handleShorten_accept:
  assumes "trim (longUrl w) \<noteq> []"
    and "URL_new (longUrl w) = Some url"
    and "(if validity w = [] then Finite 30 else parseInt10 (validity w)) = v"
    and "v \<noteq> NaN" and "\<not> v \<le> 0"
    and "generateShortCode (set (map shortCode (shortUrls w))) rnd 0 = Some (code, p')"
  shows "handleShorten URL_new now rnd stamp w =
     Some ((log_entry ''Shortened new URL''
              (Some [(''shortCode'', JString code),
                     (''originalUrl'', JString (toString url)),
                     (''validityMinutes'', JNumber v)])
              stamp
              (w\<lparr>shortUrls :=
                   \<lparr>shortCode = code, originalUrl = toString url, createdAt = now,
                    expiresAt = Finite now + v * Finite 60 * Finite 1000,
                    clickCount = 0\<rparr> # shortUrls w\<rparr>))
           \<lparr>longUrl := [], validity := []\<rparr>)"
  using assms by (auto simp: handleShorten_def isNaN_def Let_def split: if_splits)

lemma handleShorten_SomeD:
  assumes "handleShorten URL_new now rnd stamp w = Some w'"
  shows "(\<exists>msg ctx. w' = log_entry msg ctx stamp w) \<or>
     (\<exists>url v code p'.
        URL_new (longUrl w) = Some url \<and>
        generateShortCode (set (map shortCode (shortUrls w))) rnd 0 = Some (code, p') \<and>
        w' = (log_entry ''Shortened new URL''
                (Some [(''shortCode'', JString code),
                       (''originalUrl'', JString (toString url)),
                       (''validityMinutes'', JNumber v)])
                stamp
                (w\<lparr>shortUrls :=
                     \<lparr>shortCode = code, originalUrl = toString url, createdAt = now,
                      expiresAt = Finite now + v * Finite 60 * Finite 1000,
                      clickCount = 0\<rparr> # shortUrls w\<rparr>))
             \<lparr>longUrl := [], validity := []\<rparr>)"
proof (cases "trim (longUrl w) = []")
  case True
  with assms show ?thesis
    by (auto simp: handleShorten_empty)
next
  case nonempty: False
  show ?thesis
  proof (cases "URL_new (longUrl w)")
    case None
    with assms nonempty show ?thesis
      by (auto simp: handleShorten_invalid_url)
  next
    case (Some url)
    define v where "v = (if validity w = [] then Finite 30 else parseInt10 (validity w))"
    show ?thesis
    proof (cases "v = NaN \<or> v \<le> 0")
      case True
      then have "validity w \<noteq> []"
        and "parseInt10 (validity w) = NaN \<or> parseInt10 (validity w) \<le> 0"
        by (auto simp: v_def Finite_pos split: if_splits)
      with assms
        handleShorten_invalid_validity [where URL_new = URL_new and w = w, OF nonempty Some]
      show ?thesis
        by auto
    next
      case False
      then have ok: "v \<noteq> NaN" "\<not> v \<le> 0"
        by auto
      show ?thesis
      proof (cases "generateShortCode (set (map shortCode (shortUrls w))) rnd 0")
        case None
        with assms nonempty Some ok have False
          by (auto simp: handleShorten_def isNaN_def v_def Let_def split: if_splits)
        then show ?thesis ..
      next
        case gen: (Some r)
        obtain code p' where r: "r = (code, p')"
          by (cases r)
        from handleShorten_accept [where URL_new = URL_new and w = w,
            OF nonempty Some v_def [symmetric] ok gen [unfolded r]] assms Some gen [unfolded r]
        show ?thesis
          by (intro disjI2 exI [of _ url] exI [of _ v] exI [of _ code] exI [of _ p']) simp
      qed
    qed
  qed
qed

lemma parseInt10_1: "parseInt10 ''1'' = Finite 1"
  by (simp add: parseInt10_def isWhiteSpace_def isDigit_def digitValue_def F64_exact)

lemma parseInt10_0: "parseInt10 ''0'' = Finite 0"
  by (simp add: parseInt10_def isWhiteSpace_def isDigit_def digitValue_def F64_exact)

lemma parseInt10_minus_5: "parseInt10 ''-5'' = Finite (- 5)"
  by (simp add: parseInt10_def isWhiteSpace_def isDigit_def digitValue_def F64_exact)

lemma parseInt10_abc: "parseInt10 ''abc'' = NaN"
  by (simp add: parseInt10_def isWhiteSpace_def isDigit_def)

text \<open>\<open>parseInt\<close> reads a prefix: text after the digits does not make it fail.\<close>

lemma parseInt10_prefix:
  "parseInt10 ''12abc'' = Finite 12" "parseInt10 ''1.5'' = Finite 1"
  by (simp_all add: parseInt10_def isWhiteSpace_def isDigit_def digitValue_def F64_exact)

text \<open>\<open>parseInt\<close> rounds: \<open>2^53 + 1\<close> reads as \<open>2^53\<close>.\<close>

lemma parseInt10_rounds: "parseInt10 ''9007199254740993'' = Finite 9007199254740992"
  by (simp add: parseInt10_def isWhiteSpace_def isDigit_def digitValue_def F64_def
      round53_def spacing_large spacing_small)

text \<open>A long run of digits reads as \<open>Infinity\<close> (here \<open>10^309\<close>), which passes the
  validity check and makes the record never expire.\<close>

lemma parseInt10_overflow:
  "parseInt10 ''1000000000000000000000000000000000000000000000000000000000000000000000000000000000000000000000000000000000000000000000000000000000000000000000000000000000000000000000000000000000000000000000000000000000000000000000000000000000000000000000000000000000000000000000000000000000000000000000000000000000000000000000'' = PosInfinity"
  by (simp add: parseInt10_def isWhiteSpace_def isDigit_def digitValue_def F64_def
      round53_def spacing_large spacing_small)

lemma expires_infinite:
  "\<not> isNaN PosInfinity" "\<not> PosInfinity \<le> 0"
  "Finite now + PosInfinity * Finite 60 * Finite 1000 = PosInfinity"
  "\<not> Finite t > PosInfinity"
  by (simp_all add: isNaN_def zero_number_def)

lemma parseInt10_200000000001: "parseInt10 ''200000000001'' = Finite 200000000001"
  by (simp add: parseInt10_def isWhiteSpace_def isDigit_def digitValue_def F64_exact)

text \<open>The arithmetic of \<open>handleShorten\<close> for 200000000001 minutes at time 1001: the
  products are exact, the sum is odd and above \<open>2^53\<close>, and is rounded to the even
  neighbour.\<close>

lemma expires_rounded:
  "Finite 1001 + Finite 200000000001 * Finite 60 * Finite 1000 = Finite 12000000000061000"
proof -
  have "Finite 200000000001 * Finite 60 = Finite 12000000000060"
    by (simp add: F64_exact)
  moreover have "Finite 12000000000060 * Finite 1000 = Finite 12000000000060000"
    by (simp add: F64_def round53_def spacing_large spacing_small)
  moreover have "Finite 1001 + Finite 12000000000060000 = Finite 12000000000061000"
    by (simp add: F64_def round53_def spacing_large spacing_small)
  ultimately show ?thesis
    by simp
qed

lemma trim_example: "trim ''https://example.com'' = ''https://example.com''"
  by (simp add: trim_def isWhiteSpace_def)

lemma trim_blanks: "trim ''   '' = []"
  by (simp add: trim_def isWhiteSpace_def)

lemma trim_not_a_url: "trim ''not a url'' = ''not a url''"
  by (simp add: trim_def isWhiteSpace_def)

lemma typed_fields:
  "longUrl (typed u v) = u" "validity (typed u v) = v" "shortUrls (typed u v) = []"
  "logs (typed u v) = []"
  by (simp_all add: typed_def initial_def logs_def)

lemma find_distinct_code:
  assumes "distinct (map shortCode xs)" and "u \<in> set xs"
  shows "find (\<lambda>v. shortCode v = shortCode u) xs = Some u"
  using assms
proof (induction xs)
  case Nil
  then show ?case by simp
next
  case (Cons x xs)
  show ?case
  proof (cases "shortCode x = shortCode u")
    case True
    have "u \<notin> set xs"
    proof
      assume "u \<in> set xs"
      then have "shortCode u \<in> set (map shortCode xs)"
        by simp
      with True Cons.prems(1) show False
        by simp
    qed
    with Cons.prems(2) have "x = u"
      by simp
    then show ?thesis
      by simp
  next
    case False
    with Cons.prems have "u \<in> set xs" and "distinct (map shortCode xs)"
      by auto
    with Cons.IH False show ?thesis
      by simp
  qed
qed

lemma update_found_distinct:
  assumes "distinct (map shortCode xs)" and "u \<in> set xs"
  shows "\<exists>i<length xs. xs ! i = u \<and>
     update_found (\<lambda>v. shortCode v = shortCode u) f xs = xs[i := f u]"
  using assms
proof (induction xs)
  case Nil
  then show ?case by simp
next
  case (Cons x xs)
  show ?case
  proof (cases "shortCode x = shortCode u")
    case True
    have "u \<notin> set xs"
    proof
      assume "u \<in> set xs"
      then have "shortCode u \<in> set (map shortCode xs)"
        by simp
      with True Cons.prems(1) show False
        by simp
    qed
    with Cons.prems(2) have "x = u"
      by simp
    then show ?thesis
      by (intro exI [of _ 0]) simp
  next
    case False
    with Cons.prems have "u \<in> set xs" and "distinct (map shortCode xs)"
      by auto
    with Cons.IH obtain i where
      "i < length xs" "xs ! i = u"
      "update_found (\<lambda>v. shortCode v = shortCode u) f xs = xs[i := f u]"
      by blast
    with False show ?thesis
      by (intro exI [of _ "Suc i"]) simp
  qed
qed

lemma map_shortCode_update_found:
  "(\<And>x. shortCode (f x) = shortCode x) \<Longrightarrow>
   map shortCode (update_found P f xs) = map shortCode xs"
  by (induction xs) simp_all

lemma handleRedirect_not_found:
  "find (\<lambda>u. shortCode u = redirectCode w) (shortUrls w) = None \<Longrightarrow>
   handleRedirect now stamp w =
     log_entry ''Redirection failed: code not found''
       (Some [(''shortCode'', JString (redirectCode w))]) stamp
       (w\<lparr>redirectResult := Some ''Short URL not found.''\<rparr>)"
  by (simp add: handleRedirect_def)

lemma handleRedirect_expired:
  "find (\<lambda>u. shortCode u = redirectCode w) (shortUrls w) = Some found \<Longrightarrow>
   expiresAt found < Finite now \<Longrightarrow>
   handleRedirect now stamp w =
     log_entry ''Redirection failed: code expired''
       (Some [(''shortCode'', JString (redirectCode w))]) stamp
       (w\<lparr>redirectResult := Some ''This short URL has expired.''\<rparr>)"
  by (simp add: handleRedirect_def)

lemma handleRedirect_counted:
  "find (\<lambda>u. shortCode u = redirectCode w) (shortUrls w) = Some found \<Longrightarrow>
   Finite now \<le> expiresAt found \<Longrightarrow>
   handleRedirect now stamp w =
     log_entry ''Short URL visited''
       (Some [(''shortCode'', JString (redirectCode w)),
              (''originalUrl'', JString (originalUrl found))]) stamp
       (w\<lparr>shortUrls :=
            update_found (\<lambda>u. shortCode u = redirectCode w)
              (\<lambda>u. u\<lparr>clickCount := clickCount u + 1\<rparr>) (shortUrls w),
          redirectResult := Some (''Redirected to: '' @ originalUrl found)\<rparr>)"
  by (simp add: handleRedirect_def number_le_not_less)

lemma visiting_fields:
  "shortUrls (visiting c) = [example_record]" "redirectCode (visiting c) = c"
  "logs (visiting c) = []"
  by (simp_all add: visiting_def initial_def logs_def)

lemma example_record_fields:
  "shortCode example_record = ''aaaaaa''" "expiresAt example_record = Finite 61000"
  "originalUrl example_record = ''https://example.com/''" "clickCount example_record = 0"
  by (simp_all add: example_record_def)

lemma handleShorten_distinct:
  assumes "handleShorten URL_new now rnd stamp w = Some w'"
    and "distinct (map shortCode (shortUrls w))"
  shows "distinct (map shortCode (shortUrls w'))"
proof -
  from handleShorten_SomeD [OF assms(1)] show ?thesis
  proof (elim disjE exE conjE)
    fix msg ctx assume "w' = log_entry msg ctx stamp w"
    with assms(2) show ?thesis
      by (simp add: world_log_entry)
  next
    fix url v code p'
    assume gen: "generateShortCode (set (map shortCode (shortUrls w))) rnd 0 = Some (code, p')"
      and w': "w' = (log_entry ''Shortened new URL''
                (Some [(''shortCode'', JString code),
                       (''originalUrl'', JString (toString url)),
                       (''validityMinutes'', JNumber v)])
                stamp
                (w\<lparr>shortUrls :=
                     \<lparr>shortCode = code, originalUrl = toString url, createdAt = now,
                      expiresAt = Finite now + v * Finite 60 * Finite 1000,
                      clickCount = 0\<rparr> # shortUrls w\<rparr>))
             \<lparr>longUrl := [], validity := []\<rparr>"
    from generateShortCode_SomeD [OF gen] have "code \<notin> set (map shortCode (shortUrls w))"
      by auto
    with assms(2) show ?thesis
      unfolding w' by (simp add: log_entry_def)
  qed
qed

lemma handleRedirect_codes:
  "map shortCode (shortUrls (handleRedirect now stamp w)) = map shortCode (shortUrls w)"
  by (simp add: handleRedirect_def world_log_entry map_shortCode_update_found
      split: option.splits)

lemma handleCopy_cases:
  "handleCopy Missing origin code stamp w = Inl TypeError"
  "handleCopy Present origin code stamp w =
     Inr (log_entry ''Copied short URL'' (Some [(''shortCode'', JString code)]) stamp
            (w\<lparr>clipboard := Some (origin @ ''/s/'' @ code), copied := Some code\<rparr>))"
  by (simp_all add: handleCopy_def)

lemma step_distinct:
  assumes "step URL_new origin e w = Some w'"
    and "distinct (map shortCode (shortUrls w))"
  shows "distinct (map shortCode (shortUrls w'))"
proof (cases e)
  case (SubmitShorten now rnd stamp)
  with assms show ?thesis
    by (simp add: handleShorten_distinct [where URL_new = URL_new and w = w])
next
  case (SubmitRedirect now stamp)
  with assms show ?thesis
    by (auto simp: handleRedirect_codes)
next
  case (ClickCopy api code stamp)
  with assms show ?thesis
    by (cases api) (auto simp: handleCopy_cases world_log_entry)
qed (use assms in \<open>auto simp: copiedTimeout_def\<close>)

lemma run_distinct:
  "run URL_new origin evs w = Some w' \<Longrightarrow> distinct (map shortCode (shortUrls w)) \<Longrightarrow>
   distinct (map shortCode (shortUrls w'))"
proof (induction evs arbitrary: w)
  case Nil
  then show ?case by simp
next
  case (Cons e evs)
  from Cons.prems(1) obtain w1 where
    s: "step URL_new origin e w = Some w1" and r: "run URL_new origin evs w1 = Some w'"
    by (auto split: option.splits)
  from step_distinct [OF s Cons.prems(2)] have "distinct (map shortCode (shortUrls w1))" .
  with Cons.IH [OF r] show ?case .
qed

text \<open>The log over a run: one entry for each event at which the program appends, in
  the order of the events, and nothing else changes the log.\<close>

lemma handleShorten_logs:
  assumes "handleShorten URL_new now rnd stamp w = Some w'"
  shows "\<exists>e. logs w' = logs w @ [e] \<and> timestamp e = stamp \<and> nextFree w' = nextFree w"
  using handleShorten_SomeD [OF assms]
  by (auto simp: logs_def log_entry_def)

lemma handleRedirect_logs:
  "\<exists>e. logs (handleRedirect now stamp w) = logs w @ [e] \<and> timestamp e = stamp \<and>
       nextFree (handleRedirect now stamp w) = nextFree w"
  by (auto simp: handleRedirect_def logs_def log_entry_def split: option.splits)

lemma step_logs:
  assumes "step URL_new origin e w = Some w'"
  shows "\<exists>es. logs w' = logs w @ es \<and> map timestamp es = List.map_filter logged_at [e] \<and>
     nextFree w' = nextFree w"
proof (cases e)
  case (SubmitShorten now rnd stamp)
  with assms have "handleShorten URL_new now rnd stamp w = Some w'"
    by simp
  from handleShorten_logs [OF this] obtain x where
    "logs w' = logs w @ [x]" "timestamp x = stamp" "nextFree w' = nextFree w"
    by blast
  with SubmitShorten show ?thesis
    by (intro exI [of _ "[x]"]) (simp add: List.map_filter_simps)
next
  case (SubmitRedirect now stamp)
  from handleRedirect_logs [of now stamp w] obtain x where
    "logs (handleRedirect now stamp w) = logs w @ [x]" "timestamp x = stamp"
    "nextFree (handleRedirect now stamp w) = nextFree w"
    by blast
  with SubmitRedirect assms show ?thesis
    by (intro exI [of _ "[x]"]) (auto simp: List.map_filter_simps)
next
  case (ClickCopy api code stamp)
  with assms show ?thesis
    by (cases api)
       (auto simp: handleCopy_cases logs_def log_entry_def List.map_filter_simps)
qed (use assms in \<open>auto simp: copiedTimeout_def logs_def List.map_filter_simps\<close>)

lemma map_filter_Cons:
  "List.map_filter f (x # xs) = List.map_filter f [x] @ List.map_filter f xs"
  by (simp add: List.map_filter_simps split: option.splits)

lemma run_logs:
  "run URL_new origin evs w = Some w' \<Longrightarrow>
   \<exists>es. logs w' = logs w @ es \<and> map timestamp es = List.map_filter logged_at evs \<and>
     nextFree w' = nextFree w"
proof (induction evs arbitrary: w)
  case Nil
  then show ?case
    by (simp add: List.map_filter_simps)
next
  case (Cons e evs)
  from Cons.prems obtain w1 where
    s: "step URL_new origin e w = Some w1" and r: "run URL_new origin evs w1 = Some w'"
    by (auto split: option.splits)
  from step_logs [OF s] obtain es1 where
    es1: "logs w1 = logs w @ es1" "map timestamp es1 = List.map_filter logged_at [e]"
      "nextFree w1 = nextFree w"
    by blast
  from Cons.IH [OF r] obtain es2 where
    es2: "logs w' = logs w1 @ es2" "map timestamp es2 = List.map_filter logged_at evs"
      "nextFree w' = nextFree w1"
    by blast
  show ?case
  proof (intro exI [of _ "es1 @ es2"] conjI)
    show "logs w' = logs w @ es1 @ es2"
      by (simp add: es1(1) es2(1))
    show "map timestamp (es1 @ es2) = List.map_filter logged_at (e # evs)"
      by (subst map_filter_Cons) (simp add: es1(2) es2(2))
    show "nextFree w' = nextFree w"
      by (simp add: es1(3) es2(3))
  qed
qed

text \<open>\<open>getLogs\<close> hands out a new array with the entries of the log, in their order;
  writing to that array leaves the log as it was.\<close>

lemma getLogs_snapshot:
  assumes "logsRef < nextFree m"
  shows "\<exists>a m'. getLogs m = (a, m') \<and> a \<noteq> logsRef \<and> arrays m' a = logs m \<and>
     logs m' = logs m \<and> (\<forall>xs. logs (m'\<lparr>arrays := (arrays m')(a := xs)\<rparr>) = logs m)"
  using assms by (auto simp: getLogs_def logs_def Let_def)

lemma run_two_shortens:
  "\<exists>w. run example_URL_new ''http://localhost:3000'' two_shortens initial = Some w \<and>
     map shortCode (shortUrls w) = [''FFFFFF'', ''aaaaaa'']"
  by (simp add: two_shortens_def handleShorten_def initial_def trim_example
      example_URL_new_def generate_zero_empty generate_zero_then_half log_entry_def
      isNaN_def zero_number_def Let_def)


section \<open>The claims\<close>

text \<open>
  C1. Every string the short-code generator returns has length exactly 6, each of its
  characters is in \<open>[a-zA-Z0-9]\<close>, and the string is not a member of the set of
  existing codes it was given. The random source obeys the contract of \<open>Math.random\<close>
  (binary64 values in \<open>[0, 1)\<close>).
\<close>

theorem generateShortCode_result:
  assumes "unit_draws rnd"
    and "generateShortCode existing rnd p = Some (code, p')"
  shows "length code = 6 \<and> (\<forall>ch \<in> set code. alnum ch) \<and> code \<notin> existing"
proof -
  from generateShortCode_SomeD [OF assms(2)] obtain n where
    "code = candidate rnd p n" "candidate rnd p n \<notin> existing"
    by auto
  with candidate_shape [OF assms(1), of p n] show ?thesis
    by simp
qed

theorem generateShortCode_result_witness:
  "unit_draws zero_then_half \<and>
   generateShortCode {''aaaaaa''} zero_then_half 0 = Some (''FFFFFF'', 12) \<and>
   length ''FFFFFF'' = 6 \<and> list_all alnum ''FFFFFF'' \<and> ''FFFFFF'' \<notin> {''aaaaaa''}"
proof -
  note draws = unit_draws_zero_then_half
  note ret = generate_zero_then_half
  from generateShortCode_result [OF draws ret]
  have "length ''FFFFFF'' = 6" "list_all alnum ''FFFFFF''" "''FFFFFF'' \<notin> {''aaaaaa''}"
    unfolding list_all_iff by blast+
  with draws ret show ?thesis
    by blast
qed

text \<open>
  C8. The short-code generator terminates for every set of existing codes that does
  not contain all of the six-character strings over \<open>[a-zA-Z0-9]\<close>, although the
  resampling loop has no bound on its rounds. What makes it terminate is the random
  source: it is taken to spell every code at some round, as independent uniform draws
  do with probability 1.
\<close>

theorem generateShortCode_terminates:
  assumes "spells_every_code rnd p"
    and "length c = 6" and "\<forall>ch \<in> set c. alnum ch" and "c \<notin> existing"
  shows "\<exists>r. generateShortCode existing rnd p = Some r"
proof -
  from assms(1-3) obtain n where "candidate rnd p n = c"
    unfolding spells_every_code_def list_all_iff by blast
  with assms(4) have "\<exists>n. candidate rnd p n \<notin> existing"
    by blast
  with generateShortCode_returns [of rnd p existing] show ?thesis
    by auto
qed

theorem generateShortCode_terminates_witness:
  "spells_every_code enumerating 0 \<and> length ''aaaaab'' = 6 \<and> list_all alnum ''aaaaab'' \<and>
   ''aaaaab'' \<notin> {''aaaaaa''} \<and>
   (\<exists>r. generateShortCode {''aaaaaa''} enumerating 0 = Some r)"
proof -
  note fair = spells_every_code_enumerating
  have len: "length ''aaaaab'' = 6"
    by simp
  have al: "\<forall>ch \<in> set ''aaaaab''. alnum ch"
    by (simp add: alnum_def)
  have free: "''aaaaab'' \<notin> {''aaaaaa''}"
    by simp
  from generateShortCode_terminates [OF fair len al free] fair len al free
  show ?thesis
    unfolding list_all_iff by blast
qed

text \<open>
  C9, as the claim states it, fails: two invocations with the same (empty) set of
  existing codes, one after the other on the same random source, return different codes,
  and each moves the random source on by six draws.
\<close>

theorem generateShortCode_same_set_counterexample:
  "unit_draws zero_then_half \<and>
   generateShortCode {} zero_then_half 0 = Some (''aaaaaa'', 6) \<and>
   generateShortCode {} zero_then_half 6 = Some (''FFFFFF'', 12) \<and>
   ''aaaaaa'' \<noteq> ''FFFFFF''"
  using unit_draws_zero_then_half generate_zero_then_half_empty_0
    generate_zero_then_half_empty_6
  by simp

text \<open>
  C9, amended. The generator only reads the set of existing codes, and the one piece of
  state it changes is the random source, which it moves forward. Its result is a
  function of the set and of the draws it consumes: an invocation with the same set and
  a random source that agrees on those draws returns the same code and leaves the random
  source at the same position.
\<close>

theorem generateShortCode_determined:
  assumes "generateShortCode existing rnd p = Some (code, p')"
    and "\<forall>i. p \<le> i \<and> i < p' \<longrightarrow> rnd' i = rnd i"
  shows "generateShortCode existing rnd' p = Some (code, p') \<and> p < p'"
proof -
  from generateShortCode_SomeD [OF assms(1)] obtain n where
    n: "code = candidate rnd p n" "p' = p + 6 * Suc n"
       "candidate rnd p n \<notin> existing" "\<forall>m<n. candidate rnd p m \<in> existing"
    by auto
  have same: "candidate rnd' p m = candidate rnd p m" if "m \<le> n" for m
  proof (rule candidate_cong, intro allI impI)
    fix j :: nat assume "j < 6"
    with that have "p \<le> p + 6 * m + j \<and> p + 6 * m + j < p'"
      by (simp add: n(2))
    with assms(2) show "rnd' (p + 6 * m + j) = rnd (p + 6 * m + j)"
      by blast
  qed
  have "candidate rnd' p n \<notin> existing"
    using n(3) same [of n] by simp
  moreover have "\<forall>m<n. candidate rnd' p m \<in> existing"
    using n(4) same by simp
  ultimately have "generateShortCode existing rnd' p = Some (candidate rnd' p n, p + 6 * Suc n)"
    by (rule generateShortCode_first_fresh [rotated])
  with n(1,2) same [of n] show ?thesis
    by simp
qed

theorem generateShortCode_determined_witness:
  "generateShortCode {} always_zero 0 = Some (''aaaaaa'', 6) \<and>
   generateShortCode {} zero_then_half 0 = Some (''aaaaaa'', 6) \<and> (0 :: nat) < 6"
proof -
  have agree: "\<forall>i. 0 \<le> i \<and> i < 6 \<longrightarrow> zero_then_half i = always_zero i"
    by (simp add: zero_then_half_def always_zero_def)
  from generateShortCode_determined [OF generate_zero_empty agree] generate_zero_empty
  show ?thesis
    by blast
qed

text \<open>
  C2, as the claim states it, fails: the program computes \<open>expiresAt\<close> in binary64
  arithmetic, which rounds above \<open>2^53\<close>. Shortening with the validity text
  \<open>200000000001\<close> at time 1001 stores \<open>expiresAt = 12000000000061000\<close>, one less than
  \<open>now + v * 60000\<close>.
\<close>

theorem handleShorten_rounds_counterexample:
  "(\<exists>w'. handleShorten example_URL_new 1001 always_zero ''t''
           (typed ''https://example.com'' ''200000000001'') = Some w' \<and>
         map expiresAt (shortUrls w') = [Finite 12000000000061000]) \<and>
   parseInt10 ''200000000001'' = Finite 200000000001 \<and>
   (1001 + 200000000001 * 60000 :: int) = 12000000000061001"
proof -
  let ?w = "typed ''https://example.com'' ''200000000001''"
  have a: "trim (longUrl ?w) \<noteq> []"
    by (simp add: typed_fields trim_example)
  have b: "example_URL_new (longUrl ?w) = Some (URL ''https://example.com/'')"
    by (simp add: typed_fields example_URL_new_def)
  have c: "(if validity ?w = [] then Finite 30 else parseInt10 (validity ?w))
      = Finite 200000000001"
    by (simp add: typed_fields parseInt10_200000000001)
  have d: "Finite 200000000001 \<noteq> NaN" "\<not> Finite 200000000001 \<le> 0"
    by (simp_all add: zero_number_def)
  have e: "generateShortCode (set (map shortCode (shortUrls ?w))) always_zero 0
      = Some (''aaaaaa'', 6)"
    by (simp add: typed_fields generate_zero_empty)
  have "\<exists>w'. handleShorten example_URL_new 1001 always_zero ''t'' ?w = Some w' \<and>
      map expiresAt (shortUrls w') = [Finite 12000000000061000]"
    unfolding handleShorten_accept [where URL_new = example_URL_new and w = ?w,
        OF a b c d e] expires_rounded
    by (simp add: log_entry_def typed_fields)
  then show ?thesis
    by (simp add: parseInt10_200000000001)
qed

text \<open>
  C2, amended. A shorten that passes the three checks, at time \<open>now\<close> with validity
  \<open>v\<close> minutes (30 when the validity text is empty), where \<open>v * 60000\<close> and
  \<open>now + v * 60000\<close> are below \<open>2^53\<close> in magnitude, puts a new record at the front of
  the collection, with the code the generator returned, \<open>clickCount = 0\<close>,
  \<open>createdAt = now\<close> and \<open>expiresAt = now + v * 60000\<close>, clears both input fields and
  logs the event. With the validity text \<open>1\<close> the record expires at \<open>now + 60000\<close>.
\<close>

theorem handleShorten_success:
  assumes "trim (longUrl w) \<noteq> []"
    and "URL_new (longUrl w) = Some url"
    and "(if validity w = [] then Finite 30 else parseInt10 (validity w)) = Finite v"
    and "0 < v"
    and "v * 60000 < 2 ^ 53" and "\<bar>now + v * 60000\<bar> < 2 ^ 53"
    and "generateShortCode (set (map shortCode (shortUrls w))) rnd 0 = Some (code, p')"
  shows "\<exists>w'. handleShorten URL_new now rnd stamp w = Some w' \<and>
     shortUrls w' =
       \<lparr>shortCode = code, originalUrl = toString url, createdAt = now,
        expiresAt = Finite (now + v * 60000), clickCount = 0\<rparr> # shortUrls w \<and>
     longUrl w' = [] \<and> validity w' = [] \<and>
     logs w' = logs w @
       [\<lparr>timestamp = stamp, message = ''Shortened new URL'',
         entry_context = Some [(''shortCode'', JString code),
                               (''originalUrl'', JString (toString url)),
                               (''validityMinutes'', JNumber (Finite v))]\<rparr>] \<and>
     (validity w = ''1'' \<longrightarrow> expiresAt (hd (shortUrls w')) = Finite (now + 60000))"
proof -
  have one: "v = 1" if "validity w = ''1''"
    using assms(3) that by (simp add: parseInt10_1)
  have ok: "Finite v \<noteq> NaN" "\<not> Finite v \<le> 0"
    using assms(4) by (simp_all add: Finite_pos)
  note exact = expires_exact [OF assms(4-6)]
  show ?thesis
    unfolding handleShorten_accept [where URL_new = URL_new and w = w,
        OF assms(1-3) ok assms(7)] exact
    by (auto simp: logs_def log_entry_def one)
qed

theorem handleShorten_success_witness:
  "\<exists>w'. handleShorten example_URL_new 1000 always_zero ''t'' (typed ''https://example.com'' ''1'')
        = Some w' \<and>
     shortUrls w' =
       [\<lparr>shortCode = ''aaaaaa'', originalUrl = ''https://example.com/'', createdAt = 1000,
         expiresAt = Finite 61000, clickCount = 0\<rparr>] \<and>
     longUrl w' = [] \<and> validity w' = []"
proof -
  let ?w = "typed ''https://example.com'' ''1''"
  have a: "trim (longUrl ?w) \<noteq> []"
    by (simp add: typed_fields trim_example)
  have b: "example_URL_new (longUrl ?w) = Some (URL ''https://example.com/'')"
    by (simp add: typed_fields example_URL_new_def)
  have c: "(if validity ?w = [] then Finite 30 else parseInt10 (validity ?w)) = Finite 1"
    by (simp add: typed_fields parseInt10_1)
  have d: "(0 :: int) < 1" "(1 :: int) * 60000 < 2 ^ 53" "\<bar>1000 + 1 * 60000 :: int\<bar> < 2 ^ 53"
    by simp_all
  have e: "generateShortCode (set (map shortCode (shortUrls ?w))) always_zero 0
      = Some (''aaaaaa'', 6)"
    by (simp add: typed_fields generate_zero_empty)
  from handleShorten_success [where URL_new = example_URL_new and w = ?w and now = 1000
      and stamp = "''t''", OF a b c d e]
  show ?thesis
    by (auto simp: typed_fields toString_def)
qed

text \<open>
  C3. A shorten attempt is refused when the URL text is empty or only white space, or
  is not accepted by the URL parser, or when the validity text is not empty and
  \<open>parseInt\<close> gives \<open>NaN\<close> or a value \<open>\<le> 0\<close>. A refused attempt leaves the record
  collection and the input fields as they were and appends exactly one log entry, which
  carries the offending input; the entry tells which check refused, and the checks are
  made in this order.
\<close>

theorem handleShorten_rejected:
  assumes "trim (longUrl w) = [] \<or> URL_new (longUrl w) = None \<or>
     (validity w \<noteq> [] \<and>
      (parseInt10 (validity w) = NaN \<or> parseInt10 (validity w) \<le> 0))"
  shows "\<exists>w'. handleShorten URL_new now rnd stamp w = Some w' \<and>
     shortUrls w' = shortUrls w \<and> longUrl w' = longUrl w \<and> validity w' = validity w \<and>
     logs w' = logs w @
       [if trim (longUrl w) = [] then
          \<lparr>timestamp = stamp, message = ''Attempted to shorten empty URL'',
           entry_context = Some [(''longUrl'', JString (longUrl w))]\<rparr>
        else if URL_new (longUrl w) = None then
          \<lparr>timestamp = stamp, message = ''Invalid URL entered'',
           entry_context = Some [(''longUrl'', JString (longUrl w))]\<rparr>
        else
          \<lparr>timestamp = stamp, message = ''Invalid validity entered'',
           entry_context = Some [(''validity'', JString (validity w))]\<rparr>]"
proof (cases "trim (longUrl w) = []")
  case True
  then show ?thesis
    by (simp add: handleShorten_empty logs_log_entry world_log_entry)
next
  case nonempty: False
  show ?thesis
  proof (cases "URL_new (longUrl w)")
    case None
    with nonempty show ?thesis
      by (simp add: handleShorten_invalid_url logs_log_entry world_log_entry)
  next
    case (Some url)
    with nonempty assms have "validity w \<noteq> []"
      and "parseInt10 (validity w) = NaN \<or> parseInt10 (validity w) \<le> 0"
      by auto
    from handleShorten_invalid_validity [where URL_new = URL_new and w = w, OF nonempty Some this]
      nonempty Some
    show ?thesis
      by (simp add: logs_log_entry world_log_entry)
  qed
qed

theorem handleShorten_rejected_witness:
  "(\<exists>w'. handleShorten example_URL_new 1000 always_zero ''t'' (typed ''   '' []) = Some w' \<and>
      shortUrls w' = [] \<and>
      logs w' = [\<lparr>timestamp = ''t'', message = ''Attempted to shorten empty URL'',
                  entry_context = Some [(''longUrl'', JString ''   '')]\<rparr>]) \<and>
   (\<exists>w'. handleShorten example_URL_new 1000 always_zero ''t'' (typed ''not a url'' []) = Some w' \<and>
      shortUrls w' = [] \<and>
      logs w' = [\<lparr>timestamp = ''t'', message = ''Invalid URL entered'',
                  entry_context = Some [(''longUrl'', JString ''not a url'')]\<rparr>]) \<and>
   (\<exists>w'. handleShorten example_URL_new 1000 always_zero ''t'' (typed ''https://example.com'' ''0'')
        = Some w' \<and>
      shortUrls w' = [] \<and>
      logs w' = [\<lparr>timestamp = ''t'', message = ''Invalid validity entered'',
                  entry_context = Some [(''validity'', JString ''0'')]\<rparr>]) \<and>
   (\<exists>w'. handleShorten example_URL_new 1000 always_zero ''t'' (typed ''https://example.com'' ''-5'')
        = Some w' \<and>
      shortUrls w' = [] \<and>
      logs w' = [\<lparr>timestamp = ''t'', message = ''Invalid validity entered'',
                  entry_context = Some [(''validity'', JString ''-5'')]\<rparr>]) \<and>
   (\<exists>w'. handleShorten example_URL_new 1000 always_zero ''t'' (typed ''https://example.com'' ''abc'')
        = Some w' \<and>
      shortUrls w' = [] \<and>
      logs w' = [\<lparr>timestamp = ''t'', message = ''Invalid validity entered'',
                  entry_context = Some [(''validity'', JString ''abc'')]\<rparr>])"
proof -
  let ?hyp = "\<lambda>w. trim (longUrl w) = [] \<or> example_URL_new (longUrl w) = None \<or>
     (validity w \<noteq> [] \<and>
      (parseInt10 (validity w) = NaN \<or> parseInt10 (validity w) \<le> 0))"
  note parses = parseInt10_0 parseInt10_minus_5 parseInt10_abc
  note evals = typed_fields trim_blanks trim_not_a_url trim_example example_URL_new_def parses
  have blank: "?hyp (typed ''   '' [])"
    by (simp add: typed_fields trim_blanks)
  have bad_url: "?hyp (typed ''not a url'' [])"
    by (simp add: typed_fields example_URL_new_def)
  have zero: "?hyp (typed ''https://example.com'' ''0'')"
    by (simp add: typed_fields parseInt10_0 zero_number_def)
  have negative: "?hyp (typed ''https://example.com'' ''-5'')"
    by (simp add: typed_fields parseInt10_minus_5 zero_number_def)
  have word: "?hyp (typed ''https://example.com'' ''abc'')"
    by (simp add: typed_fields parseInt10_abc)
  note inst = handleShorten_rejected [where URL_new = example_URL_new and now = 1000
      and rnd = always_zero and stamp = "''t''"]
  from inst [where w = "typed ''   '' []", OF blank]
    inst [where w = "typed ''not a url'' []", OF bad_url]
    inst [where w = "typed ''https://example.com'' ''0''", OF zero]
    inst [where w = "typed ''https://example.com'' ''-5''", OF negative]
    inst [where w = "typed ''https://example.com'' ''abc''", OF word]
  show ?thesis
    by (auto simp: evals)
qed

text \<open>
  C4. A redirect on a code that no stored record has sets the result message to
  \<open>Short URL not found.\<close> and leaves every record as it was. A redirect on the code
  of a stored record whose \<open>expiresAt\<close> is strictly less than the current time sets the
  message to \<open>This short URL has expired.\<close> and leaves every record, its \<open>clickCount\<close>
  included, as it was. Each of the two appends one failure entry to the log. The codes
  of the stored records are pairwise distinct, so that the record of a code is unique.
\<close>

theorem handleRedirect_failure:
  "(redirectCode w \<notin> set (map shortCode (shortUrls w)) \<longrightarrow>
      redirectResult (handleRedirect now stamp w) = Some ''Short URL not found.'' \<and>
      shortUrls (handleRedirect now stamp w) = shortUrls w \<and>
      logs (handleRedirect now stamp w) = logs w @
        [\<lparr>timestamp = stamp, message = ''Redirection failed: code not found'',
          entry_context = Some [(''shortCode'', JString (redirectCode w))]\<rparr>]) \<and>
   (distinct (map shortCode (shortUrls w)) \<and> u \<in> set (shortUrls w) \<and>
    shortCode u = redirectCode w \<and> expiresAt u < Finite now \<longrightarrow>
      redirectResult (handleRedirect now stamp w) = Some ''This short URL has expired.'' \<and>
      shortUrls (handleRedirect now stamp w) = shortUrls w \<and>
      logs (handleRedirect now stamp w) = logs w @
        [\<lparr>timestamp = stamp, message = ''Redirection failed: code expired'',
          entry_context = Some [(''shortCode'', JString (redirectCode w))]\<rparr>])"
proof (intro conjI impI)
  assume "redirectCode w \<notin> set (map shortCode (shortUrls w))"
  then have none: "find (\<lambda>u. shortCode u = redirectCode w) (shortUrls w) = None"
    by (force simp: find_None_iff)
  show "redirectResult (handleRedirect now stamp w) = Some ''Short URL not found.''"
    by (simp add: handleRedirect_not_found [OF none] world_log_entry)
  show "shortUrls (handleRedirect now stamp w) = shortUrls w"
    by (simp add: handleRedirect_not_found [OF none] world_log_entry)
  show "logs (handleRedirect now stamp w) = logs w @
        [\<lparr>timestamp = stamp, message = ''Redirection failed: code not found'',
          entry_context = Some [(''shortCode'', JString (redirectCode w))]\<rparr>]"
    by (simp add: handleRedirect_not_found [OF none] logs_log_entry) (simp add: logs_def)
next
  assume "distinct (map shortCode (shortUrls w)) \<and> u \<in> set (shortUrls w) \<and>
    shortCode u = redirectCode w \<and> expiresAt u < Finite now"
  then have found: "find (\<lambda>v. shortCode v = redirectCode w) (shortUrls w) = Some u"
    and late: "expiresAt u < Finite now"
    using find_distinct_code [of "shortUrls w" u] by auto
  show "redirectResult (handleRedirect now stamp w) = Some ''This short URL has expired.''"
    by (simp add: handleRedirect_expired [OF found late] world_log_entry)
  show "shortUrls (handleRedirect now stamp w) = shortUrls w"
    by (simp add: handleRedirect_expired [OF found late] world_log_entry)
  show "logs (handleRedirect now stamp w) = logs w @
        [\<lparr>timestamp = stamp, message = ''Redirection failed: code expired'',
          entry_context = Some [(''shortCode'', JString (redirectCode w))]\<rparr>]"
    by (simp add: handleRedirect_expired [OF found late] logs_log_entry) (simp add: logs_def)
qed

theorem handleRedirect_failure_witness:
  "redirectResult (handleRedirect 61001 ''t'' (visiting ''zzzzzz'')) = Some ''Short URL not found.'' \<and>
   shortUrls (handleRedirect 61001 ''t'' (visiting ''zzzzzz'')) = [example_record] \<and>
   redirectResult (handleRedirect 61001 ''t'' (visiting ''aaaaaa''))
     = Some ''This short URL has expired.'' \<and>
   shortUrls (handleRedirect 61001 ''t'' (visiting ''aaaaaa'')) = [example_record] \<and>
   logs (handleRedirect 61001 ''t'' (visiting ''aaaaaa'')) =
     [\<lparr>timestamp = ''t'', message = ''Redirection failed: code expired'',
       entry_context = Some [(''shortCode'', JString ''aaaaaa'')]\<rparr>]"
  using handleRedirect_failure [of "visiting ''zzzzzz''" 61001 "''t''" example_record]
    handleRedirect_failure [of "visiting ''aaaaaa''" 61001 "''t''" example_record]
  by (simp add: visiting_fields example_record_fields)

text \<open>
  C5. A redirect on the code of a stored record whose \<open>expiresAt\<close> has not passed
  (\<open>now \<le> expiresAt\<close>) adds exactly 1 to the \<open>clickCount\<close> of that record and changes
  nothing else in the collection, sets the result message to \<open>Redirected to: \<close>
  followed by the record's original URL, and appends a success entry to the log. The
  codes of the stored records are pairwise distinct.
\<close>

theorem handleRedirect_visit:
  assumes "distinct (map shortCode (shortUrls w))"
    and "u \<in> set (shortUrls w)"
    and "shortCode u = redirectCode w"
    and "Finite now \<le> expiresAt u"
  shows "(\<exists>i<length (shortUrls w). shortUrls w ! i = u \<and>
            shortUrls (handleRedirect now stamp w) =
              (shortUrls w)[i := u\<lparr>clickCount := clickCount u + 1\<rparr>]) \<and>
     redirectResult (handleRedirect now stamp w) = Some (''Redirected to: '' @ originalUrl u) \<and>
     logs (handleRedirect now stamp w) = logs w @
       [\<lparr>timestamp = stamp, message = ''Short URL visited'',
         entry_context = Some [(''shortCode'', JString (redirectCode w)),
                               (''originalUrl'', JString (originalUrl u))]\<rparr>]"
proof -
  have found: "find (\<lambda>v. shortCode v = redirectCode w) (shortUrls w) = Some u"
    using find_distinct_code [OF assms(1,2)] assms(3) by simp
  note eq = handleRedirect_counted [OF found assms(4)]
  from update_found_distinct [OF assms(1,2)] obtain i where
    "i < length (shortUrls w)" "shortUrls w ! i = u"
    "update_found (\<lambda>v. shortCode v = redirectCode w)
       (\<lambda>u. u\<lparr>clickCount := clickCount u + 1\<rparr>) (shortUrls w) =
     (shortUrls w)[i := u\<lparr>clickCount := clickCount u + 1\<rparr>]"
    unfolding assms(3) by blast
  then have "\<exists>i<length (shortUrls w). shortUrls w ! i = u \<and>
      shortUrls (handleRedirect now stamp w) =
        (shortUrls w)[i := u\<lparr>clickCount := clickCount u + 1\<rparr>]"
    by (intro exI [of _ i]) (simp add: eq world_log_entry)
  moreover have "redirectResult (handleRedirect now stamp w) =
      Some (''Redirected to: '' @ originalUrl u)"
    by (simp add: eq world_log_entry)
  moreover have "logs (handleRedirect now stamp w) = logs w @
       [\<lparr>timestamp = stamp, message = ''Short URL visited'',
         entry_context = Some [(''shortCode'', JString (redirectCode w)),
                               (''originalUrl'', JString (originalUrl u))]\<rparr>]"
    by (simp add: eq logs_log_entry) (simp add: logs_def)
  ultimately show ?thesis
    by blast
qed

theorem handleRedirect_visit_witness:
  "shortUrls (handleRedirect 61000 ''t'' (visiting ''aaaaaa'')) =
     [example_record\<lparr>clickCount := 1\<rparr>] \<and>
   redirectResult (handleRedirect 61000 ''t'' (visiting ''aaaaaa'')) =
     Some ''Redirected to: https://example.com/''"
proof -
  let ?w = "visiting ''aaaaaa''"
  have a: "distinct (map shortCode (shortUrls ?w))"
    by (simp add: visiting_fields)
  have b: "example_record \<in> set (shortUrls ?w)"
    by (simp add: visiting_fields)
  have c: "shortCode example_record = redirectCode ?w"
    by (simp add: visiting_fields example_record_fields)
  have d: "Finite 61000 \<le> expiresAt example_record"
    by (simp add: example_record_fields)
  from handleRedirect_visit [OF a b c d, of "''t''"] show ?thesis
    by (auto simp: visiting_fields example_record_fields)
qed

text \<open>
  C6. In every state that a sequence of events (shorten and redirect submissions, and
  every other event of the page) reaches from the initial page, the \<open>shortCode\<close> fields
  of the records are pairwise distinct.
\<close>

theorem shortCodes_distinct:
  assumes "run URL_new origin evs initial = Some w"
  shows "distinct (map shortCode (shortUrls w))"
proof -
  have "distinct (map shortCode (shortUrls initial))"
    by (simp add: initial_def)
  with run_distinct [OF assms] show ?thesis .
qed

theorem shortCodes_distinct_witness:
  "\<exists>w. run example_URL_new ''http://localhost:3000'' two_shortens initial = Some w \<and>
     map shortCode (shortUrls w) = [''FFFFFF'', ''aaaaaa''] \<and>
     distinct (map shortCode (shortUrls w))"
proof -
  from run_two_shortens obtain w where
    w: "run example_URL_new ''http://localhost:3000'' two_shortens initial = Some w"
       "map shortCode (shortUrls w) = [''FFFFFF'', ''aaaaaa'']"
    by auto
  from shortCodes_distinct [OF w(1)] w show ?thesis
    by auto
qed

text \<open>
  C7. Every operation, a copy included, is to append exactly one entry to the log. The
  program does not do so for a click on Copy where \<open>navigator.clipboard\<close> is undefined:
  \<open>handleCopy\<close> throws a \<open>TypeError\<close> at its first statement, before it reaches \<open>log\<close>,
  and the page, its log included, stays as it was.
\<close>

theorem handleCopy_without_clipboard:
  "handleCopy Missing origin code stamp w = Inl TypeError \<and>
   run URL_new origin [ClickCopy Missing code stamp] w = Some w \<and>
   logged_at (ClickCopy Missing code stamp) = None"
  by (simp add: handleCopy_cases)

text \<open>
  C10. The \<open>originalUrl\<close> of a record that a shorten adds is the serialization of the
  URL object the parser returned for the input, not the input text, and a later
  redirect to the record that has not expired shows that serialization. So where the
  parser normalizes, as the URL Standard does for \<open>https://example.com\<close> (serialized
  \<open>https://example.com/\<close>), the stored URL differs from what was typed.
\<close>

theorem originalUrl_is_serialization:
  assumes "handleShorten URL_new now rnd stamp w = Some w'"
    and "shortUrls w' \<noteq> shortUrls w"
  shows "\<exists>url r. URL_new (longUrl w) = Some url \<and> shortUrls w' = r # shortUrls w \<and>
     originalUrl r = toString url \<and>
     (Finite t \<le> expiresAt r \<longrightarrow>
        redirectResult (handleRedirect t stamp' (w'\<lparr>redirectCode := shortCode r\<rparr>)) =
          Some (''Redirected to: '' @ toString url)) \<and>
     (longUrl w = ''https://example.com'' \<and>
      URL_new ''https://example.com'' = Some (URL ''https://example.com/'') \<longrightarrow>
        originalUrl r = ''https://example.com/'' \<and> originalUrl r \<noteq> longUrl w)"
proof -
  from handleShorten_SomeD [OF assms(1)] assms(2) obtain url v code p' where
    url: "URL_new (longUrl w) = Some url"
    and w': "w' = (log_entry ''Shortened new URL''
                (Some [(''shortCode'', JString code),
                       (''originalUrl'', JString (toString url)),
                       (''validityMinutes'', JNumber v)])
                stamp
                (w\<lparr>shortUrls :=
                     \<lparr>shortCode = code, originalUrl = toString url, createdAt = now,
                      expiresAt = Finite now + v * Finite 60 * Finite 1000,
                      clickCount = 0\<rparr> # shortUrls w\<rparr>))
             \<lparr>longUrl := [], validity := []\<rparr>"
    by (auto simp: world_log_entry)
  let ?r = "\<lparr>shortCode = code, originalUrl = toString url, createdAt = now,
             expiresAt = Finite now + v * Finite 60 * Finite 1000, clickCount = 0\<rparr>"
  have list: "shortUrls w' = ?r # shortUrls w"
    unfolding w' by (simp add: log_entry_def)
  have visit: "redirectResult (handleRedirect t stamp' (w'\<lparr>redirectCode := shortCode ?r\<rparr>)) =
      Some (''Redirected to: '' @ toString url)" if "Finite t \<le> expiresAt ?r"
  proof -
    have "find (\<lambda>u. shortCode u = redirectCode (w'\<lparr>redirectCode := shortCode ?r\<rparr>))
        (shortUrls (w'\<lparr>redirectCode := shortCode ?r\<rparr>)) = Some ?r"
      by (simp add: list)
    from handleRedirect_counted [OF this that] show ?thesis
      by (simp add: world_log_entry)
  qed
  show ?thesis
  proof (intro exI [of _ url] exI [of _ ?r] conjI impI)
    show "URL_new (longUrl w) = Some url" by (rule url)
    show "shortUrls w' = ?r # shortUrls w" by (rule list)
    show "originalUrl ?r = toString url" by simp
    show "redirectResult (handleRedirect t stamp' (w'\<lparr>redirectCode := shortCode ?r\<rparr>)) =
        Some (''Redirected to: '' @ toString url)" if "Finite t \<le> expiresAt ?r"
      using that by (rule visit)
    show "originalUrl ?r = ''https://example.com/''"
      if "longUrl w = ''https://example.com'' \<and>
        URL_new ''https://example.com'' = Some (URL ''https://example.com/'')"
      using that url by (auto simp: toString_def)
    show "originalUrl ?r \<noteq> longUrl w"
      if "longUrl w = ''https://example.com'' \<and>
        URL_new ''https://example.com'' = Some (URL ''https://example.com/'')"
      using that url by (auto simp: toString_def)
  qed
qed

theorem originalUrl_is_serialization_witness:
  "\<exists>w'. handleShorten example_URL_new 1000 always_zero ''t'' (typed ''https://example.com'' ''1'')
        = Some w' \<and>
     map originalUrl (shortUrls w') = [''https://example.com/''] \<and>
     redirectResult (handleRedirect 61000 ''t2'' (w'\<lparr>redirectCode := ''aaaaaa''\<rparr>)) =
       Some ''Redirected to: https://example.com/''"
proof -
  let ?w = "typed ''https://example.com'' ''1''"
  have "\<exists>w'. handleShorten example_URL_new 1000 always_zero ''t'' ?w = Some w' \<and>
      shortUrls w' = [example_record]"
    by (simp add: handleShorten_def typed_def initial_def trim_example example_URL_new_def
        parseInt10_1 generate_zero_empty log_entry_def example_record_def toString_def
        isNaN_def zero_number_def Let_def F64_exact)
  then obtain w' where
    w': "handleShorten example_URL_new 1000 always_zero ''t'' ?w = Some w'"
      "shortUrls w' = [example_record]"
    by auto
  have changed: "shortUrls w' \<noteq> shortUrls ?w"
    by (simp add: w'(2) typed_fields)
  from originalUrl_is_serialization [where URL_new = example_URL_new and w = ?w
      and t = 61000 and stamp' = "''t2''", OF w'(1) changed] w'
  show ?thesis
    by (auto simp: typed_fields example_URL_new_def toString_def example_record_def)
qed

end
